theory Spec2Isabelle
  imports
    Main
    "HOL-Library.Sublist"
    "HOL-Library.Char_ord"
    "HOL-Library.List_Lexorder"
    "HOL-Library.AList"
    "HOL-Library.Word"
begin

section \<open>Go strings\<close>

text \<open>
  A Go string is a sequence of bytes; \<^typ>\<open>string\<close> (a list of 8-bit characters) is the
  same thing. \<open>len\<close> is \<^const>\<open>length\<close>, \<open>==\<close> is equality of the lists, and \<open><\<close>
  on strings is the bytewise lexicographic order (the order of \<open>sort.Strings\<close>).
\<close>

definition byte :: "char \<Rightarrow> nat" where
  "byte c = of_char c"

text \<open>\<open>strings.HasPrefix\<close>: \<open>len(s) >= len(prefix) && s[:len(prefix)] == prefix\<close>.\<close>

definition HasPrefix :: "string \<Rightarrow> string \<Rightarrow> bool" where
  "HasPrefix s pre \<longleftrightarrow> length pre \<le> length s \<and> take (length pre) s = pre"

text \<open>\<open>strings.HasSuffix\<close>: \<open>len(s) >= len(suffix) && s[len(s)-len(suffix):] == suffix\<close>.\<close>

definition HasSuffix :: "string \<Rightarrow> string \<Rightarrow> bool" where
  "HasSuffix s suf \<longleftrightarrow> length suf \<le> length s \<and> drop (length s - length suf) s = suf"

text \<open>\<open>strings.Contains\<close>: some position of \<open>s\<close> starts an occurrence of \<open>substr\<close>.\<close>

fun Contains :: "string \<Rightarrow> string \<Rightarrow> bool" where
  "Contains [] sub = (sub = [])"
| "Contains (c # cs) sub = (HasPrefix (c # cs) sub \<or> Contains cs sub)"

text \<open>\<open>strings.Join\<close>.\<close>

fun Join :: "string list \<Rightarrow> string \<Rightarrow> string" where
  "Join [] sep = []"
| "Join [x] sep = x"
| "Join (x # y # ys) sep = x @ sep @ Join (y # ys) sep"

text \<open>Splitting at every occurrence of one byte (\<open>strings.Split\<close> with a one-byte separator).\<close>

fun split_at :: "char \<Rightarrow> string \<Rightarrow> string list" where
  "split_at sep [] = [[]]"
| "split_at sep (c # cs) =
     (if c = sep then [] # split_at sep cs
      else (case split_at sep cs of [] \<Rightarrow> [[c]] | x # xs \<Rightarrow> (c # x) # xs))"

subsection \<open>Runes\<close>

text \<open>
  \<open>for _, r := range s\<close> decodes \<open>s\<close> as UTF-8, one rune at a time
  (\<open>utf8.DecodeRuneInString\<close>): a byte below \<open>0x80\<close> is a rune of width 1, a well-formed
  multi-byte sequence is one rune, and at an ill-formed sequence the rune is \<open>U+FFFD\<close> and
  the loop advances by one byte. \<open>first_size\<close>, \<open>accept_lo\<close> and \<open>accept_hi\<close> are the
  library's tables \<open>first\<close> and \<open>acceptRanges\<close> for a leading byte in \<open>0xC2..0xF4\<close>;
  the masks and shifts are written as \<open>mod\<close> and multiplication.
\<close>

definition RuneError :: nat where
  "RuneError = 65533"

definition first_size :: "nat \<Rightarrow> nat" where
  "first_size s0 = (if s0 < 224 then 2 else if s0 < 240 then 3 else 4)"

definition accept_lo :: "nat \<Rightarrow> nat" where
  "accept_lo s0 = (if s0 = 224 then 160 else if s0 = 240 then 144 else 128)"

definition accept_hi :: "nat \<Rightarrow> nat" where
  "accept_hi s0 = (if s0 = 237 then 159 else if s0 = 244 then 143 else 191)"

definition decode_multi :: "nat \<Rightarrow> string \<Rightarrow> nat \<times> nat" where
  "decode_multi s0 cs =
     (let sz = first_size s0 in
      if Suc (length cs) < sz then (RuneError, 1)
      else
        let s1 = byte (cs ! 0) in
        if s1 < accept_lo s0 \<or> accept_hi s0 < s1 then (RuneError, 1)
        else if sz \<le> 2 then ((s0 mod 32) * 64 + s1 mod 64, 2)
        else
          let s2 = byte (cs ! 1) in
          if s2 < 128 \<or> 191 < s2 then (RuneError, 1)
          else if sz \<le> 3 then ((s0 mod 16) * 4096 + (s1 mod 64) * 64 + s2 mod 64, 3)
          else
            let s3 = byte (cs ! 2) in
            if s3 < 128 \<or> 191 < s3 then (RuneError, 1)
            else ((s0 mod 8) * 262144 + (s1 mod 64) * 4096 + (s2 mod 64) * 64 + s3 mod 64, 4))"

fun DecodeRuneInString :: "string \<Rightarrow> nat \<times> nat" where
  "DecodeRuneInString [] = (RuneError, 0)"
| "DecodeRuneInString (c0 # cs) =
     (let s0 = byte c0 in
      if s0 < 128 then (s0, 1)
      else if s0 < 194 \<or> 244 < s0 then (RuneError, 1)
      else decode_multi s0 cs)"

lemma decode_multi_width: "1 \<le> snd (decode_multi s0 cs)"
  by (simp add: decode_multi_def Let_def)

lemma DecodeRune_width: "1 \<le> snd (DecodeRuneInString (c # cs))"
  using decode_multi_width[of "byte c" cs] by (simp add: Let_def)

lemma rune_ascii: "byte c < 128 \<Longrightarrow> DecodeRuneInString (c # cs) = (byte c, 1)"
  by simp

declare DecodeRuneInString.simps(2) [simp del]

text \<open>The runes a \<open>range\<close> loop over the string visits, in order.\<close>

function range_runes :: "string \<Rightarrow> nat list" where
  "range_runes [] = []"
| "range_runes (c # cs) =
     fst (DecodeRuneInString (c # cs))
       # range_runes (drop (snd (DecodeRuneInString (c # cs))) (c # cs))"
  by pat_completeness auto
termination
proof (relation "measure length")
  show "wf (measure length)" by simp
next
  fix c :: char and cs :: string
  have "1 \<le> snd (DecodeRuneInString (c # cs))" by (rule DecodeRune_width)
  then show "(drop (snd (DecodeRuneInString (c # cs))) (c # cs), c # cs) \<in> measure length"
    by simp
qed

subsection \<open>Upper case\<close>

text \<open>
  \<open>strings.ToUpper\<close> has a fast path for a string of ASCII bytes only, which maps \<open>a..z\<close>
  to \<open>A..Z\<close> and keeps every other byte; any other string goes through the Unicode case
  tables (\<open>strings.Map(unicode.ToUpper, s)\<close>). The tables are not part of the program, so
  that branch is the parameter \<open>unicode_upper\<close>; no result below depends on it.
\<close>

definition ascii_upper :: "char \<Rightarrow> char" where
  "ascii_upper c = (if 97 \<le> byte c \<and> byte c \<le> 122 then char_of (byte c - 32) else c)"

definition ToUpper :: "(string \<Rightarrow> string) \<Rightarrow> string \<Rightarrow> string" where
  "ToUpper unicode_upper s =
     (if list_all (\<lambda>c. byte c < 128) s then map ascii_upper s else unicode_upper s)"

section \<open>Validation of country codes\<close>

text \<open>\<open>isAlphaOnly\<close>: the loop returns false at the first rune outside \<open>'A'..'Z'\<close>.\<close>

fun alpha_loop :: "nat list \<Rightarrow> bool" where
  "alpha_loop [] = True"
| "alpha_loop (r # rs) = (if r < 65 \<or> r > 90 then False else alpha_loop rs)"

definition isAlphaOnly :: "string \<Rightarrow> bool" where
  "isAlphaOnly s = alpha_loop (range_runes s)"

definition isValidCountryCode :: "(string \<Rightarrow> string) \<Rightarrow> string \<Rightarrow> bool" where
  "isValidCountryCode unicode_upper code \<longleftrightarrow>
     length code = 2 \<and> code = ToUpper unicode_upper code \<and> isAlphaOnly code"

section \<open>Archive paths\<close>

text \<open>
  \<open>filepath.Clean\<close> of the Go library, for a Unix target (the separator is \<open>/\<close>, there is
  no volume name), by its documented rules: the path is cut at the separators; empty
  elements and \<open>.\<close> elements are dropped; a \<open>..\<close> element removes the element kept before
  it when there is one that is not itself \<open>..\<close>, is dropped at the root of a rooted path,
  and is kept otherwise; the elements kept are joined by single separators, after the
  leading separator of a rooted path; an empty result is \<open>.\<close>. The second argument of
  \<open>clean_elems\<close> holds the elements kept so far, the last one first.
\<close>

fun clean_elems :: "bool \<Rightarrow> string list \<Rightarrow> string list \<Rightarrow> string list" where
  "clean_elems rooted out [] = out"
| "clean_elems rooted out (e # es) =
     (if e = [] \<or> e = ''.'' then clean_elems rooted out es
      else if e = ''..'' then
        (if out \<noteq> [] \<and> hd out \<noteq> ''..'' then clean_elems rooted (tl out) es
         else if \<not> rooted then clean_elems rooted (''..'' # out) es
         else clean_elems rooted out es)
      else clean_elems rooted (e # out) es)"

definition Clean :: "string \<Rightarrow> string" where
  "Clean path =
     (if path = [] then ''.''
      else
        let rooted = (hd path = CHR ''/'');
            out = Join (rev (clean_elems rooted [] (split_at (CHR ''/'') path))) ''/''
        in if rooted then CHR ''/'' # out else if out = [] then ''.'' else out)"

text \<open>\<open>filepath.Join\<close>: leading empty elements are ignored, the rest is joined and cleaned.\<close>

definition filepath_Join :: "string list \<Rightarrow> string" where
  "filepath_Join elem =
     (case dropWhile (\<lambda>e. e = []) elem of [] \<Rightarrow> [] | es \<Rightarrow> Clean (Join es ''/''))"

text \<open>The third test is for a leading backslash, the byte \<open>0x5C\<close>.\<close>

definition isValidTarPath :: "string \<Rightarrow> bool" where
  "isValidTarPath path =
     (let cleanPath = Clean path
      in \<not> Contains cleanPath ''..'' \<and> \<not> HasPrefix cleanPath ''/''
         \<and> \<not> HasPrefix cleanPath [CHR 0x5C])"

section \<open>Extraction of the database from the archive\<close>

text \<open>
  Errors are values. \<open>LibError\<close> is an error handed up by the operating system or a
  library; \<open>Wrap\<close> is \<open>fmt.Errorf("<context>: %w", err)\<close> with its context; \<open>TooLarge\<close>
  is the size error with the number its message carries; \<open>Msg\<close> is an error that is only
  a message.
\<close>

datatype error = LibError | Msg string | TooLarge int | Wrap string error

definition maxDownloadSize :: int where
  "maxDownloadSize = 1024 * 1024 * 1024"

text \<open>
  What \<open>tar.Reader\<close> hands to the loop. Each call of \<open>Next\<close> gives a header, with the
  entry's name and declared size (an \<open>int64\<close>; the program never computes with it), or
  fails; the end of the list is \<open>io.EOF\<close>. With a header comes the entry's content as the
  archive really holds it: reading it through \<open>io.LimitReader(tr, hdr.Size)\<close> gives the
  declared number of bytes, and fails when the archive ends before that many.
\<close>

record tar_header =
  Name :: string
  Size :: int

datatype tar_next = Header tar_header string | HeaderError

definition read_entry :: "string \<Rightarrow> int \<Rightarrow> string option" where
  "read_entry content n =
     (if int (length content) < n then None else Some (take (nat n) content))"

fun extractMMDBFromTar :: "tar_next list \<Rightarrow> error + string" where
  "extractMMDBFromTar [] = Inl (Msg ''MMDB file not found in archive'')"
| "extractMMDBFromTar (HeaderError # rest) = Inl (Wrap ''reading tar header'' LibError)"
| "extractMMDBFromTar (Header hdr content # rest) =
     (if \<not> isValidTarPath (Name hdr) then extractMMDBFromTar rest
      else if HasSuffix (Name hdr) ''.mmdb'' then
        (if Size hdr > maxDownloadSize then Inl (TooLarge (Size hdr))
         else
           (case read_entry content (Size hdr) of
              None \<Rightarrow> Inl (Wrap ''reading MMDB file'' LibError)
            | Some mmdbData \<Rightarrow> Inr mmdbData))
      else extractMMDBFromTar rest)"

section \<open>Aggregation\<close>

text \<open>
  A \<open>netip.Addr\<close> is the zero value, an IPv4 address or an IPv6 address (a prefix carries
  no zone); \<open>Is4\<close> is true of IPv4 addresses only, so an IPv4-mapped IPv6 address counts
  as IPv6.
\<close>

datatype netip_Addr = AddrZero | Addr4 "32 word" | Addr6 "128 word"

fun Is4 :: "netip_Addr \<Rightarrow> bool" where
  "Is4 (Addr4 a) = True"
| "Is4 (Addr6 a) = False"
| "Is4 AddrZero = False"

record netip_Prefix =
  Addr :: netip_Addr
  Bits :: int

record country =
  ISOCode :: string

record countryRecord =
  Country :: country

text \<open>
  One element of \<open>db.Networks()\<close>: its network, and what \<open>Decode\<close> fills into a fresh
  \<open>countryRecord\<close>, or \<open>None\<close> when \<open>Decode\<close> returns an error.
\<close>

record result =
  Decode :: "countryRecord option"
  Prefix :: netip_Prefix

text \<open>
  A Go map from country codes to slices, as an association list with one pair for each
  key; the order of the pairs is the order in which a \<open>range\<close> over the map happens to
  visit the keys, which Go leaves open. Reading an absent key gives the nil slice.
\<close>

type_synonym bucket_map = "(string \<times> netip_Prefix list) list"

definition bucket :: "bucket_map \<Rightarrow> string \<Rightarrow> netip_Prefix list" where
  "bucket m code = (case map_of m code of None \<Rightarrow> [] | Some pfxs \<Rightarrow> pfxs)"

text \<open>\<open>m[code] = append(m[code], pfx)\<close>.\<close>

definition append_to :: "bucket_map \<Rightarrow> string \<Rightarrow> netip_Prefix \<Rightarrow> bucket_map" where
  "append_to m code pfx = AList.update code (bucket m code @ [pfx]) m"

record geoIPGenerator =
  ipv4 :: bucket_map
  ipv6 :: bucket_map

definition newGeoIPGenerator :: geoIPGenerator where
  "newGeoIPGenerator = \<lparr>ipv4 = [], ipv6 = []\<rparr>"

text \<open>The body of \<open>for result := range db.Networks()\<close>.\<close>

fun networks_loop ::
  "(string \<Rightarrow> string) \<Rightarrow> result list \<Rightarrow> geoIPGenerator \<Rightarrow> geoIPGenerator" where
  "networks_loop u [] g = g"
| "networks_loop u (r # rs) g =
     (case Decode r of
        None \<Rightarrow> networks_loop u rs g
      | Some rec \<Rightarrow>
          let pfx = Prefix r;
              code = ISOCode (Country rec)
          in if code = [] \<or> \<not> isValidCountryCode u code then networks_loop u rs g
             else if Is4 (Addr pfx)
               then networks_loop u rs (g\<lparr>ipv4 := append_to (ipv4 g) code pfx\<rparr>)
               else networks_loop u rs (g\<lparr>ipv6 := append_to (ipv6 g) code pfx\<rparr>))"

text \<open>
  The database format is outside the program: \<open>FromBytes\<close> stands for
  \<open>maxminddb.FromBytes\<close> followed by \<open>Networks\<close>, and gives the networks of the database in
  the order of the iteration, or \<open>None\<close> when the bytes cannot be opened.
\<close>

definition loadGeoIPData ::
  "(string \<Rightarrow> string) \<Rightarrow> (string \<Rightarrow> result list option) \<Rightarrow> string \<Rightarrow> geoIPGenerator
    \<Rightarrow> error option \<times> geoIPGenerator" where
  "loadGeoIPData u FromBytes mmdbData g =
     (case FromBytes mmdbData of
        None \<Rightarrow> (Some (Wrap ''opening MMDB'' LibError), g)
      | Some networks \<Rightarrow> (None, networks_loop u networks g))"

section \<open>Output files\<close>

text \<open>
  The file system is a state: the directories made, the content of each file by its
  path, and what was printed on standard output. Which calls of the operating system
  fail is given from outside, as three predicates on paths. A call returns its error (if
  any) and the new state; files written before a failure stay. A file is named by its
  path while it is open, and a write that fails writes nothing.
\<close>

record os_env =
  mkdir_fails :: "string \<Rightarrow> bool"
  open_fails :: "string \<Rightarrow> bool"
  write_fails :: "string \<Rightarrow> bool"

record fsys =
  dirs :: "string set"
  files :: "string \<rightharpoonup> string"
  stdout :: string

definition write_file :: "string \<Rightarrow> string \<Rightarrow> fsys \<Rightarrow> fsys" where
  "write_file name content fs = fs\<lparr>files := (files fs)(name \<mapsto> content)\<rparr>"

definition MkdirAll :: "os_env \<Rightarrow> string \<Rightarrow> fsys \<Rightarrow> error option \<times> fsys" where
  "MkdirAll env path fs =
     (if mkdir_fails env path then (Some LibError, fs)
      else (None, fs\<lparr>dirs := insert path (dirs fs)\<rparr>))"

text \<open>\<open>os.OpenFile\<close> with \<open>O_CREATE|O_WRONLY|O_TRUNC\<close>: the file is there and empty.\<close>

definition OpenFile :: "os_env \<Rightarrow> string \<Rightarrow> fsys \<Rightarrow> error option \<times> fsys" where
  "OpenFile env name fs =
     (if open_fails env name then (Some LibError, fs) else (None, write_file name [] fs))"

definition Fprint :: "os_env \<Rightarrow> string \<Rightarrow> string \<Rightarrow> fsys \<Rightarrow> error option \<times> fsys" where
  "Fprint env w s fs =
     (if write_fails env w then (Some LibError, fs)
      else
        (case files fs w of
           None \<Rightarrow> (Some LibError, fs)
         | Some old \<Rightarrow> (None, write_file w (old @ s) fs)))"

definition Fprintln :: "os_env \<Rightarrow> string \<Rightarrow> string \<Rightarrow> fsys \<Rightarrow> error option \<times> fsys" where
  "Fprintln env w s fs = Fprint env w (s @ ''\<newline>'') fs"

definition Printf :: "string \<Rightarrow> fsys \<Rightarrow> fsys" where
  "Printf s fs = fs\<lparr>stdout := stdout fs @ s\<rparr>"

text \<open>
  The program calls \<open>fmt.Fprint\<close>, \<open>fmt.Fprintf\<close> and \<open>fmt.Fprintln\<close> as statements: the
  byte count and the error they return are dropped.
\<close>

definition discard :: "error option \<times> fsys \<Rightarrow> fsys" where
  "discard r = snd r"

text \<open>
  The text of a prefix is \<open>netip.Prefix.String\<close>, a function of the library: the parameter
  \<open>String\<close> of the writers.
\<close>

definition writeNFTSet ::
  "os_env \<Rightarrow> (netip_Prefix \<Rightarrow> string) \<Rightarrow> string \<Rightarrow> string \<Rightarrow> netip_Prefix list \<Rightarrow> string
    \<Rightarrow> fsys \<Rightarrow> error option \<times> fsys" where
  "writeNFTSet env String w code pfxs ipType fs0 =
     (let fs1 = discard (Fprint env w (''    set '' @ code @ '' {\<newline>'') fs0);
          fs2 = discard (Fprint env w (''        type '' @ ipType @ ''_addr\<newline>'') fs1);
          fs3 = discard (Fprintln env w ''        flags interval'' fs2);
          fs4 = discard (Fprint env w ''        elements = { '' fs3);
          parts = map String pfxs;
          fs5 = discard (Fprint env w (Join parts '', '') fs4);
          fs6 = discard (Fprintln env w '' }'' fs5);
          fs7 = discard (Fprintln env w ''    }'' fs6)
      in (None, fs7))"

text \<open>The loop of \<open>generateGlobalFile\<close> over the sorted codes.\<close>

fun global_loop ::
  "os_env \<Rightarrow> (netip_Prefix \<Rightarrow> string) \<Rightarrow> string \<Rightarrow> bucket_map \<Rightarrow> string \<Rightarrow> string list
    \<Rightarrow> fsys \<Rightarrow> error option \<times> fsys" where
  "global_loop env String f countryMap ipType [] fs = (None, fs)"
| "global_loop env String f countryMap ipType (code # codes) fs =
     (let pfxs = bucket countryMap code in
      if length pfxs = 0 then global_loop env String f countryMap ipType codes fs
      else
        (case writeNFTSet env String f code pfxs ipType fs of
           (Some err, fs') \<Rightarrow> (Some (Wrap (''writing NFT set for '' @ code) err), fs')
         | (None, fs') \<Rightarrow> global_loop env String f countryMap ipType codes fs'))"

text \<open>The message on standard output starts with the three bytes of a check mark.\<close>

definition generated_mark :: string where
  "generated_mark = [CHR 0xE2, CHR 0x9C, CHR 0x85] @ '' Generated ''"

definition generateGlobalFile ::
  "os_env \<Rightarrow> (netip_Prefix \<Rightarrow> string) \<Rightarrow> bucket_map \<Rightarrow> string \<Rightarrow> string \<Rightarrow> fsys
    \<Rightarrow> error option \<times> fsys" where
  "generateGlobalFile env String countryMap filename ipType fs0 =
     (case OpenFile env filename fs0 of
        (Some err, fs1) \<Rightarrow> (Some (Wrap (''creating file '' @ filename) err), fs1)
      | (None, fs1) \<Rightarrow>
          let fs2 = discard (Fprintln env filename ''#!/usr/sbin/nft -f'' fs1);
              fs3 = discard (Fprintln env filename ''table inet geoip {'' fs2);
              codes = sort (map fst countryMap)
          in (case global_loop env String filename countryMap ipType codes fs3 of
                (Some err, fs4) \<Rightarrow> (Some err, fs4)
              | (None, fs4) \<Rightarrow>
                  let fs5 = discard (Fprintln env filename ''}'' fs4)
                  in (None, Printf (generated_mark @ filename @ ''\<newline>'') fs5)))"

definition countryDir_of :: "string \<Rightarrow> string" where
  "countryDir_of code = filepath_Join [''by_country'', code]"

definition filename_of :: "string \<Rightarrow> string \<Rightarrow> string" where
  "filename_of code ipType = filepath_Join [countryDir_of code, code @ ''_'' @ ipType @ ''.nft'']"

definition generateCountryFile ::
  "os_env \<Rightarrow> (netip_Prefix \<Rightarrow> string) \<Rightarrow> string \<Rightarrow> netip_Prefix list \<Rightarrow> string \<Rightarrow> fsys
    \<Rightarrow> error option \<times> fsys" where
  "generateCountryFile env String code pfxs ipType fs0 =
     (if length pfxs = 0 then (None, fs0)
      else
        let countryDir = countryDir_of code in
        (case MkdirAll env countryDir fs0 of
           (Some err, fs1) \<Rightarrow>
             (Some (Wrap (''creating country directory '' @ countryDir) err), fs1)
         | (None, fs1) \<Rightarrow>
             let filename = filename_of code ipType in
             (case OpenFile env filename fs1 of
                (Some err, fs2) \<Rightarrow> (Some (Wrap (''creating file '' @ filename) err), fs2)
              | (None, fs2) \<Rightarrow>
                  let fs3 = discard (Fprintln env filename ''#!/usr/sbin/nft -f'' fs2);
                      fs4 = discard (Fprintln env filename ''table inet geoip {'' fs3)
                  in (case writeNFTSet env String filename code pfxs ipType fs4 of
                        (Some err, fs5) \<Rightarrow> (Some (Wrap ''writing NFT set'' err), fs5)
                      | (None, fs5) \<Rightarrow>
                          (None, discard (Fprintln env filename ''}'' fs5))))))"

text \<open>
  One loop of \<open>generateCountryFiles\<close>, over the keys of a map in the order of the
  \<open>range\<close>; \<open>what\<close> is the family as the error message names it.
\<close>

fun country_loop ::
  "os_env \<Rightarrow> (netip_Prefix \<Rightarrow> string) \<Rightarrow> bucket_map \<Rightarrow> string \<Rightarrow> string \<Rightarrow> string list
    \<Rightarrow> fsys \<Rightarrow> error option \<times> fsys" where
  "country_loop env String m ipType what [] fs = (None, fs)"
| "country_loop env String m ipType what (code # codes) fs =
     (case generateCountryFile env String code (bucket m code) ipType fs of
        (Some err, fs') \<Rightarrow>
          (Some (Wrap (''generating '' @ what @ '' file for '' @ code) err), fs')
      | (None, fs') \<Rightarrow> country_loop env String m ipType what codes fs')"

definition generateCountryFiles ::
  "os_env \<Rightarrow> (netip_Prefix \<Rightarrow> string) \<Rightarrow> geoIPGenerator \<Rightarrow> fsys \<Rightarrow> error option \<times> fsys" where
  "generateCountryFiles env String g fs0 =
     (case country_loop env String (ipv4 g) ''ipv4'' ''IPv4'' (map fst (ipv4 g)) fs0 of
        (Some err, fs1) \<Rightarrow> (Some err, fs1)
      | (None, fs1) \<Rightarrow>
          country_loop env String (ipv6 g) ''ipv6'' ''IPv6'' (map fst (ipv6 g)) fs1)"

definition generateAllFiles ::
  "os_env \<Rightarrow> (netip_Prefix \<Rightarrow> string) \<Rightarrow> geoIPGenerator \<Rightarrow> fsys \<Rightarrow> error option \<times> fsys" where
  "generateAllFiles env String g fs0 =
     (case MkdirAll env ''by_country'' fs0 of
        (Some err, fs1) \<Rightarrow> (Some (Wrap ''creating by_country directory'' err), fs1)
      | (None, fs1) \<Rightarrow>
          (case generateGlobalFile env String (ipv4 g) ''geoip_ipv4.nft'' ''ipv4'' fs1 of
             (Some err, fs2) \<Rightarrow> (Some (Wrap ''generating IPv4 global file'' err), fs2)
           | (None, fs2) \<Rightarrow>
               (case generateGlobalFile env String (ipv6 g) ''geoip_ipv6.nft'' ''ipv6'' fs2 of
                  (Some err, fs3) \<Rightarrow> (Some (Wrap ''generating IPv6 global file'' err), fs3)
                | (None, fs3) \<Rightarrow>
                    (case generateCountryFiles env String g fs3 of
                       (Some err, fs4) \<Rightarrow> (Some (Wrap ''generating country files'' err), fs4)
                     | (None, fs4) \<Rightarrow> (None, fs4)))))"

section \<open>The vocabulary of the specification\<close>

text \<open>
  A country code in the specification's wording, \<open>^[A-Z]{2}$\<close>: exactly two characters,
  each an upper-case ASCII letter.
\<close>

definition upper_letter :: "char \<Rightarrow> bool" where
  "upper_letter c \<longleftrightarrow> 65 \<le> byte c \<and> byte c \<le> 90"

definition two_upper_letters :: "string \<Rightarrow> bool" where
  "two_upper_letters code =
     (case code of [a, b] \<Rightarrow> upper_letter a \<and> upper_letter b | _ \<Rightarrow> False)"

text \<open>
  A path has a \<open>..\<close> segment when one of its elements between separators is \<open>..\<close>. It
  leaves its starting directory when, read from the left, some \<open>..\<close> element comes with
  no directory name left to cancel: \<open>dotdot_escapes d\<close> reads the elements at depth \<open>d\<close>.
\<close>

definition has_dotdot_segment :: "string \<Rightarrow> bool" where
  "has_dotdot_segment p \<longleftrightarrow> ''..'' \<in> set (split_at (CHR ''/'') p)"

fun dotdot_escapes :: "nat \<Rightarrow> string list \<Rightarrow> bool" where
  "dotdot_escapes d [] = False"
| "dotdot_escapes d (e # es) =
     (if e = [] \<or> e = ''.'' then dotdot_escapes d es
      else if e = ''..'' then (case d of 0 \<Rightarrow> True | Suc d' \<Rightarrow> dotdot_escapes d' es)
      else dotdot_escapes (Suc d) es)"

text \<open>
  The names of a path are its elements other than the empty one, \<open>.\<close> and \<open>..\<close>. A name
  survives when no \<open>..\<close> element after it cancels it, that is, when the elements after
  it, read at depth 0, do not lead out; the surviving names are what is left of a path
  that does not lead out of its starting directory. \<open>deficit\<close> counts the names before a
  list of elements that its \<open>..\<close> elements cancel.
\<close>

definition is_name :: "string \<Rightarrow> bool" where
  "is_name e \<longleftrightarrow> e \<noteq> [] \<and> e \<noteq> ''.'' \<and> e \<noteq> ''..''"

fun surviving :: "string list \<Rightarrow> string list" where
  "surviving [] = []"
| "surviving (e # es) =
     (if is_name e \<and> \<not> dotdot_escapes 0 es then e # surviving es else surviving es)"

fun deficit :: "string list \<Rightarrow> nat" where
  "deficit [] = 0"
| "deficit (e # es) =
     (if e = [] \<or> e = ''.'' then deficit es
      else if e = ''..'' then Suc (deficit es)
      else deficit es - 1)"

text \<open>
  An entry qualifies when its path is safe and its name ends with the suffix of the
  database; the extraction passes over an entry whose header was read and does not
  qualify.
\<close>

definition qualifies :: "tar_header \<Rightarrow> bool" where
  "qualifies hdr \<longleftrightarrow> isValidTarPath (Name hdr) \<and> HasSuffix (Name hdr) ''.mmdb''"

fun passed_over :: "tar_next \<Rightarrow> bool" where
  "passed_over (Header hdr content) = (\<not> qualifies hdr)"
| "passed_over HeaderError = False"

text \<open>
  A network of the database yields a code when its record decodes and the ISO code of
  the record is that code, is not empty and passes the validation.
\<close>

definition yields :: "(string \<Rightarrow> string) \<Rightarrow> result \<Rightarrow> string \<Rightarrow> bool" where
  "yields u r code \<longleftrightarrow>
     (case Decode r of
        None \<Rightarrow> False
      | Some rec \<Rightarrow> ISOCode (Country rec) = code \<and> code \<noteq> [] \<and> isValidCountryCode u code)"

text \<open>
  The invariant of a bucket map: one pair for each key, every key a valid country code,
  no list empty.
\<close>

definition bucket_inv :: "(string \<Rightarrow> string) \<Rightarrow> bucket_map \<Rightarrow> bool" where
  "bucket_inv u m \<longleftrightarrow>
     distinct (map fst m)
     \<and> list_all (\<lambda>(code, pfxs). isValidCountryCode u code \<and> pfxs \<noteq> []) m"

text \<open>The format of the output: the header of two lines, and a set block.\<close>

definition header :: string where
  "header = ''#!/usr/sbin/nft -f\<newline>'' @ ''table inet geoip {\<newline>''"

definition set_block ::
  "(netip_Prefix \<Rightarrow> string) \<Rightarrow> string \<Rightarrow> netip_Prefix list \<Rightarrow> string \<Rightarrow> string" where
  "set_block String code pfxs ipType =
     ''    set '' @ code @ '' {\<newline>''
     @ ''        type '' @ ipType @ ''_addr\<newline>''
     @ ''        flags interval\<newline>''
     @ ''        elements = { '' @ Join (map String pfxs) '', '' @ '' }\<newline>''
     @ ''    }\<newline>''"

text \<open>
  The body of a global file as the program writes it, one block for each key with
  prefixes, the keys sorted; and the whole content of a per-country file.
\<close>

definition global_body :: "(netip_Prefix \<Rightarrow> string) \<Rightarrow> bucket_map \<Rightarrow> string \<Rightarrow> string" where
  "global_body String m ipType =
     concat (map (\<lambda>c. set_block String c (bucket m c) ipType)
               (filter (\<lambda>c. bucket m c \<noteq> []) (sort (map fst m))))"

definition country_content ::
  "(netip_Prefix \<Rightarrow> string) \<Rightarrow> string \<Rightarrow> netip_Prefix list \<Rightarrow> string \<Rightarrow> string" where
  "country_content String code pfxs ipType =
     header @ set_block String code pfxs ipType @ ''}\<newline>''"

text \<open>
  An operating system on which no call fails, and one on which no directory and no
  file fails to be made, whatever happens to writes.
\<close>

definition never_fails :: "os_env \<Rightarrow> bool" where
  "never_fails env \<longleftrightarrow>
     (\<forall>p. \<not> mkdir_fails env p \<and> \<not> open_fails env p \<and> \<not> write_fails env p)"

definition creation_never_fails :: "os_env \<Rightarrow> bool" where
  "creation_never_fails env \<longleftrightarrow> (\<forall>p. \<not> mkdir_fails env p \<and> \<not> open_fails env p)"

text \<open>
  The text of a prefix in CIDR form is not empty and has neither a comma nor a line
  break in it.
\<close>

definition cidr_text :: "string \<Rightarrow> bool" where
  "cidr_text s \<longleftrightarrow> s \<noteq> [] \<and> CHR '','' \<notin> set s \<and> CHR 0x0A \<notin> set s"

subsection \<open>A reader of set blocks\<close>

text \<open>
  Modelled from the spec: the "trivial line-oriented reader" of the round-trip property,
  which the repository does not contain. It cuts the text into lines, takes the country
  code from between \<open>set\<close> and the brace of the first line, the address family from
  between \<open>type\<close> and \<open>_addr\<close> of the second, and the elements from between the braces of
  the fourth, separated by a comma and a space; the third and fifth lines must be the
  fixed ones, and nothing may follow the fifth.
\<close>

definition cut_prefix :: "string \<Rightarrow> string \<Rightarrow> string option" where
  "cut_prefix pre s = (if HasPrefix s pre then Some (drop (length pre) s) else None)"

definition cut_suffix :: "string \<Rightarrow> string \<Rightarrow> string option" where
  "cut_suffix suf s = (if HasSuffix s suf then Some (take (length s - length suf) s) else None)"

fun split_comma_space :: "string \<Rightarrow> string list" where
  "split_comma_space [] = [[]]"
| "split_comma_space [c] = [[c]]"
| "split_comma_space (c # d # ds) =
     (if c = CHR '','' \<and> d = CHR '' '' then [] # split_comma_space ds
      else (case split_comma_space (d # ds) of [] \<Rightarrow> [[c]] | x # xs \<Rightarrow> (c # x) # xs))"

definition read_elements :: "string \<Rightarrow> string list" where
  "read_elements s = (if s = [] then [] else split_comma_space s)"

definition read_set_block :: "string \<Rightarrow> (string \<times> string \<times> string list) option" where
  "read_set_block block =
     (case split_at (CHR 0x0A) block of
        [l1, l2, l3, l4, l5, l6] \<Rightarrow>
          (case (Option.bind (cut_prefix ''    set '' l1) (cut_suffix '' {''),
                 Option.bind (cut_prefix ''        type '' l2) (cut_suffix ''_addr''),
                 Option.bind (cut_prefix ''        elements = { '' l4) (cut_suffix '' }'')) of
             (Some code, Some ipType, Some elements) \<Rightarrow>
               if l3 = ''        flags interval'' \<and> l5 = ''    }'' \<and> l6 = []
               then Some (code, ipType, read_elements elements)
               else None
           | _ \<Rightarrow> None)
      | _ \<Rightarrow> None)"

subsection \<open>Concrete inputs\<close>

text \<open>
  Two prefixes, \<open>1.2.3.0/24\<close> and \<open>2001:db8::/32\<close>, a rendering that gives them their
  CIDR texts, an operating system on which nothing fails, one on which every write
  fails, and an empty file system.
\<close>

definition pfx_1_2_3_0 :: netip_Prefix where
  "pfx_1_2_3_0 = \<lparr>Addr = Addr4 0x01020300, Bits = 24\<rparr>"

definition pfx_2001_db8 :: netip_Prefix where
  "pfx_2001_db8 = \<lparr>Addr = Addr6 0x20010db8000000000000000000000000, Bits = 32\<rparr>"

definition example_String :: "netip_Prefix \<Rightarrow> string" where
  "example_String p = (if Is4 (Addr p) then ''1.2.3.0/24'' else ''2001:db8::/32'')"

definition reliable_os :: os_env where
  "reliable_os =
     \<lparr>mkdir_fails = (\<lambda>p. False), open_fails = (\<lambda>p. False), write_fails = (\<lambda>p. False)\<rparr>"

definition full_disk_os :: os_env where
  "full_disk_os =
     \<lparr>mkdir_fails = (\<lambda>p. False), open_fails = (\<lambda>p. False), write_fails = (\<lambda>p. True)\<rparr>"

definition empty_fs :: fsys where
  "empty_fs = \<lparr>dirs = {}, files = Map.empty, stdout = []\<rparr>"

definition entry :: "string \<Rightarrow> string \<Rightarrow> tar_next" where
  "entry name content = Header \<lparr>Name = name, Size = int (length content)\<rparr> content"

definition network :: "string \<Rightarrow> netip_Prefix \<Rightarrow> result" where
  "network code pfx = \<lparr>Decode = Some \<lparr>Country = \<lparr>ISOCode = code\<rparr>\<rparr>, Prefix = pfx\<rparr>"

definition example_networks :: "result list" where
  "example_networks =
     [network ''US'' pfx_1_2_3_0,
      network ''us'' pfx_1_2_3_0,
      network [] pfx_1_2_3_0,
      network ''US'' pfx_2001_db8,
      \<lparr>Decode = None, Prefix = pfx_1_2_3_0\<rparr>,
      network ''DE'' pfx_2001_db8,
      network ''US'' pfx_1_2_3_0]"

text \<open>
  An IPv4 map with a key that has no prefixes, and the buckets of the specification's
  end-to-end scenario.
\<close>

definition example_ipv4 :: bucket_map where
  "example_ipv4 = [(''US'', [pfx_1_2_3_0, pfx_1_2_3_0]), (''DE'', [pfx_1_2_3_0]), (''ZZ'', [])]"

definition example_buckets :: geoIPGenerator where
  "example_buckets = \<lparr>ipv4 = [(''US'', [pfx_1_2_3_0])], ipv6 = []\<rparr>"

text \<open>Buckets in which \<open>US\<close> is a key of the IPv6 map with no prefix under it.\<close>

definition example_empty_key :: geoIPGenerator where
  "example_empty_key = \<lparr>ipv4 = [(''US'', [pfx_1_2_3_0])], ipv6 = [(''US'', [])]\<rparr>"

section \<open>Properties of the validator\<close>

lemma mod_window:
  fixes n :: nat
  assumes "k * m \<le> n" "n < k * m + m"
  shows "n mod m = n - k * m"
proof -
  from assms have r: "n - k * m < m" by simp
  from assms have "n = (n - k * m) + k * m" by simp
  then have "n mod m = ((n - k * m) + k * m) mod m" by simp
  also have "\<dots> = (n - k * m) mod m" by simp
  also from r have "\<dots> = n - k * m" by simp
  finally show ?thesis .
qed

lemma decode_multi_cases:
  "decode_multi s0 cs = (RuneError, 1)
   \<or> (first_size s0 = 2 \<and> fst (decode_multi s0 cs) = (s0 mod 32) * 64 + byte (cs ! 0) mod 64)
   \<or> (first_size s0 = 3 \<and> accept_lo s0 \<le> byte (cs ! 0) \<and> byte (cs ! 0) \<le> 191
        \<and> (s0 mod 16) * 4096 + (byte (cs ! 0) mod 64) * 64 \<le> fst (decode_multi s0 cs))
   \<or> (first_size s0 = 4 \<and> accept_lo s0 \<le> byte (cs ! 0) \<and> byte (cs ! 0) \<le> 191
        \<and> (s0 mod 8) * 262144 + (byte (cs ! 0) mod 64) * 4096 \<le> fst (decode_multi s0 cs))"
  by (simp add: decode_multi_def Let_def first_size_def accept_hi_def)

text \<open>A rune that starts with a byte outside ASCII is itself outside ASCII.\<close>

lemma decode_multi_ge:
  assumes "194 \<le> s0" "s0 \<le> 244"
  shows "128 \<le> fst (decode_multi s0 cs)"
proof -
  have m32: "\<And>n::nat. 194 \<le> n \<Longrightarrow> n < 224 \<Longrightarrow> 2 \<le> n mod 32"
    using mod_window[of 6 32] by simp
  have m16: "\<And>n::nat. 224 < n \<Longrightarrow> n < 240 \<Longrightarrow> 1 \<le> n mod 16"
    using mod_window[of 14 16] by simp
  have m8: "\<And>n::nat. 240 < n \<Longrightarrow> n \<le> 244 \<Longrightarrow> 1 \<le> n mod 8"
    using mod_window[of 30 8] by simp
  have s160: "\<And>n::nat. 160 \<le> n \<Longrightarrow> n \<le> 191 \<Longrightarrow> 32 \<le> n mod 64"
    using mod_window[of 2 64] by simp
  have s144: "\<And>n::nat. 144 \<le> n \<Longrightarrow> n \<le> 191 \<Longrightarrow> 16 \<le> n mod 64"
    using mod_window[of 2 64] by simp
  let ?s1 = "byte (cs ! 0)"
  consider (bad) "decode_multi s0 cs = (RuneError, 1)"
    | (two) "first_size s0 = 2" "fst (decode_multi s0 cs) = (s0 mod 32) * 64 + ?s1 mod 64"
    | (three) "first_size s0 = 3" "accept_lo s0 \<le> ?s1" "?s1 \<le> 191"
        "(s0 mod 16) * 4096 + (?s1 mod 64) * 64 \<le> fst (decode_multi s0 cs)"
    | (four) "first_size s0 = 4" "accept_lo s0 \<le> ?s1" "?s1 \<le> 191"
        "(s0 mod 8) * 262144 + (?s1 mod 64) * 4096 \<le> fst (decode_multi s0 cs)"
    using decode_multi_cases[of s0 cs] by blast
  then show ?thesis
  proof cases
    case bad
    then show ?thesis by (simp add: RuneError_def)
  next
    case two
    from two(1) have "s0 < 224" by (simp add: first_size_def split: if_splits)
    with assms m32[of s0] have "2 \<le> s0 mod 32" by simp
    then have "128 \<le> (s0 mod 32) * 64" by simp
    with two(2) show ?thesis by simp
  next
    case three
    from three(1) have r: "224 \<le> s0" "s0 < 240"
      by (simp_all add: first_size_def split: if_splits)
    show ?thesis
    proof (cases "s0 = 224")
      case True
      with three(2) have "160 \<le> ?s1" by (simp add: accept_lo_def)
      with s160[of ?s1] three(3) have "32 \<le> ?s1 mod 64" by simp
      then have "128 \<le> (?s1 mod 64) * 64" by simp
      with three(4) show ?thesis by simp
    next
      case False
      with r m16[of s0] have "1 \<le> s0 mod 16" by simp
      then have "128 \<le> (s0 mod 16) * 4096" by simp
      with three(4) show ?thesis by simp
    qed
  next
    case four
    from four(1) assms have r: "240 \<le> s0" "s0 \<le> 244"
      by (simp_all add: first_size_def split: if_splits)
    show ?thesis
    proof (cases "s0 = 240")
      case True
      with four(2) have "144 \<le> ?s1" by (simp add: accept_lo_def)
      with s144[of ?s1] four(3) have "16 \<le> ?s1 mod 64" by simp
      then have "128 \<le> (?s1 mod 64) * 4096" by simp
      with four(4) show ?thesis by simp
    next
      case False
      with r m8[of s0] have "1 \<le> s0 mod 8" by simp
      then have "128 \<le> (s0 mod 8) * 262144" by simp
      with four(4) show ?thesis by simp
    qed
  qed
qed

lemma rune_non_ascii: "128 \<le> byte c \<Longrightarrow> 128 \<le> fst (DecodeRuneInString (c # cs))"
  using decode_multi_ge[of "byte c" cs]
  by (simp add: DecodeRuneInString.simps(2) Let_def RuneError_def)

lemma isAlphaOnly_Cons: "isAlphaOnly (c # cs) \<longleftrightarrow> upper_letter c \<and> isAlphaOnly cs"
proof (cases "byte c < 128")
  case True
  then show ?thesis
    by (auto simp: isAlphaOnly_def upper_letter_def rune_ascii)
next
  case False
  then have "128 \<le> fst (DecodeRuneInString (c # cs))"
    by (intro rune_non_ascii) simp
  with False show ?thesis
    by (simp add: isAlphaOnly_def upper_letter_def)
qed

lemma isAlphaOnly_iff: "isAlphaOnly s \<longleftrightarrow> list_all upper_letter s"
  by (induction s) (simp add: isAlphaOnly_def, simp add: isAlphaOnly_Cons)

lemma ascii_upper_id: "upper_letter c \<Longrightarrow> ascii_upper c = c"
  by (simp add: ascii_upper_def upper_letter_def)

lemma ToUpper_upper_letters: "list_all upper_letter s \<Longrightarrow> ToUpper u s = s"
proof -
  assume a: "list_all upper_letter s"
  then have "list_all (\<lambda>c. byte c < 128) s"
    by (induction s) (auto simp: upper_letter_def)
  moreover from a have "map ascii_upper s = s"
    by (induction s) (auto simp: ascii_upper_id)
  ultimately show ?thesis by (simp add: ToUpper_def)
qed

lemma valid_code_two_upper: "isValidCountryCode u code \<longleftrightarrow> two_upper_letters code"
proof (cases "length code = 2")
  case True
  then obtain a b where code: "code = [a, b]"
    by (cases code; cases "tl code") auto
  show ?thesis
    using ToUpper_upper_letters[of "[a, b]" u]
    by (auto simp: code isValidCountryCode_def two_upper_letters_def isAlphaOnly_iff)
next
  case False
  then show ?thesis
    by (auto simp: isValidCountryCode_def two_upper_letters_def split: list.splits)
qed

text \<open>
  Claim C5. For every input string, the country-code validator accepts exactly the strings
  of two upper-case ASCII letters (\<open>^[A-Z]{2}$\<close>) and rejects every other string: the
  empty one, lower-case or mixed-case ones, those of another length, those with a
  character that is not a letter. This holds whatever the Unicode case tables are.
\<close>

theorem isValidCountryCode_exact:
  "isValidCountryCode unicode_upper code = two_upper_letters code"
  by (rule valid_code_two_upper)

text \<open>The kinds of strings the claim lists, one of each.\<close>

lemma isValidCountryCode_examples:
  "isValidCountryCode u ''US''"
  "\<not> isValidCountryCode u []"
  "\<not> isValidCountryCode u ''us''"
  "\<not> isValidCountryCode u ''Us''"
  "\<not> isValidCountryCode u ''USA''"
  "\<not> isValidCountryCode u ''U''"
  "\<not> isValidCountryCode u ''U1''"
  "\<not> isValidCountryCode u [CHR 0xC3, CHR 0x89]"
  by (simp_all add: valid_code_two_upper two_upper_letters_def upper_letter_def byte_def)

section \<open>Properties of the path check\<close>

subsection \<open>Prefixes and occurrences\<close>

lemma HasPrefix_Nil [simp]: "HasPrefix s []"
  by (simp add: HasPrefix_def)

lemma HasPrefix_Cons_Cons [simp]:
  "HasPrefix (c # cs) (d # ds) \<longleftrightarrow> c = d \<and> HasPrefix cs ds"
  by (auto simp: HasPrefix_def)

lemma HasPrefix_Nil_Cons [simp]: "\<not> HasPrefix [] (d # ds)"
  by (simp add: HasPrefix_def)

lemma HasPrefix_single: "HasPrefix s [c] \<longleftrightarrow> s \<noteq> [] \<and> hd s = c"
  by (cases s) auto

lemma HasPrefix_iff: "HasPrefix s pre \<longleftrightarrow> (\<exists>b. s = pre @ b)"
  by (auto simp: HasPrefix_def) (metis append_take_drop_id)

lemma Contains_Nil [simp]: "Contains s []"
  by (cases s) simp_all

text \<open>\<open>Contains\<close> is the relation of being a contiguous sublist.\<close>

lemma Contains_iff: "Contains s sub \<longleftrightarrow> (\<exists>a b. s = a @ sub @ b)"
proof (induction s)
  case Nil
  show ?case by auto
next
  case (Cons c cs)
  have "(\<exists>a b. c # cs = a @ sub @ b)
        \<longleftrightarrow> (\<exists>b. c # cs = sub @ b) \<or> (\<exists>a b. cs = a @ sub @ b)"
    by (auto simp: Cons_eq_append_conv)
  with Cons show ?case by (simp add: HasPrefix_iff del: HasPrefix_Cons_Cons)
qed

lemma Contains_sublist: "Contains s sub \<longleftrightarrow> sublist sub s"
  by (simp add: Contains_iff sublist_def)

lemma Contains_Join: "x \<in> set xs \<Longrightarrow> Contains (Join xs sep) x"
proof (induction xs sep rule: Join.induct)
  case (1 sep)
  then show ?case by simp
next
  case (2 y sep)
  then have "Join [y] sep = [] @ x @ []" by simp
  then show ?case unfolding Contains_iff by blast
next
  case (3 y z zs sep)
  show ?case
  proof (cases "x = y")
    case True
    then have "Join (y # z # zs) sep = [] @ x @ (sep @ Join (z # zs) sep)" by simp
    then show ?thesis unfolding Contains_iff by blast
  next
    case False
    with 3 have "Contains (Join (z # zs) sep) x" by simp
    then obtain a b where "Join (z # zs) sep = a @ x @ b"
      unfolding Contains_iff by blast
    then have "Join (y # z # zs) sep = (y @ sep @ a) @ x @ b" by simp
    then show ?thesis unfolding Contains_iff by blast
  qed
qed

text \<open>Two equal bytes in a row do not arise across a different byte.\<close>

lemma Contains_pair_sep:
  assumes "c \<noteq> d" "\<not> Contains x [d, d]" "\<not> Contains y [d, d]"
  shows "\<not> Contains (x @ c # y) [d, d]"
  using assms
proof (induction x)
  case Nil
  then show ?case by simp
next
  case (Cons a x)
  then show ?case by (cases x) auto
qed

lemma Join_no_dotdot:
  assumes "\<forall>x \<in> set xs. \<not> Contains x ''..''"
  shows "\<not> Contains (Join xs ''/'') ''..''"
  using assms
proof (induction xs "''/''" rule: Join.induct)
  case 1
  then show ?case by simp
next
  case (2 x)
  then show ?case by simp
next
  case (3 x y ys)
  then have "\<not> Contains x ''..''" "\<not> Contains (Join (y # ys) ''/'') ''..''" by simp_all
  then have "\<not> Contains (x @ CHR ''/'' # Join (y # ys) ''/'') ''..''"
    by (intro Contains_pair_sep) simp_all
  then show ?case by simp
qed

lemma Join_hd:
  "xs \<noteq> [] \<Longrightarrow> hd xs \<noteq> [] \<Longrightarrow> Join xs sep \<noteq> [] \<and> hd (Join xs sep) = hd (hd xs)"
  by (induction xs sep rule: Join.induct) auto

lemma split_at_nonempty [simp]: "split_at sep s \<noteq> []"
  by (induction s) (auto split: list.splits)

lemma split_at_no_sep: "seg \<in> set (split_at sep s) \<Longrightarrow> sep \<notin> set seg"
  by (induction s arbitrary: seg) (auto split: list.splits if_splits)

lemma split_at_plain: "sep \<notin> set a \<Longrightarrow> split_at sep a = [a]"
  by (induction a) auto

lemma split_at_line: "sep \<notin> set a \<Longrightarrow> split_at sep (a @ sep # rest) = a # split_at sep rest"
  by (induction a) auto

subsection \<open>Cleaning\<close>

text \<open>A \<open>..\<close> that was kept is never removed again.\<close>

lemma clean_elems_keeps_dotdot:
  "''..'' \<in> set out \<Longrightarrow> ''..'' \<in> set (clean_elems False out es)"
proof (induction es arbitrary: out)
  case Nil
  then show ?case by simp
next
  case (Cons e es)
  then show ?case
    by (cases out) auto
qed

text \<open>
  The names on top of the elements kept are the depth below the starting directory: a
  path that leaves it keeps a \<open>..\<close>.
\<close>

lemma clean_elems_escapes:
  "dotdot_escapes (length (takeWhile (\<lambda>e. e \<noteq> ''..'') out)) es
   \<Longrightarrow> ''..'' \<in> set (clean_elems False out es)"
proof (induction es arbitrary: out)
  case Nil
  then show ?case by simp
next
  case (Cons e es)
  show ?case
  proof (cases "e = [] \<or> e = ''.''")
    case True
    with Cons show ?thesis by auto
  next
    case False
    note ne = this
    show ?thesis
    proof (cases "e = ''..''")
      case True
      show ?thesis
      proof (cases "out \<noteq> [] \<and> hd out \<noteq> ''..''")
        case True
        then obtain o1 os where out: "out = o1 # os" "o1 \<noteq> ''..''" by (cases out) auto
        with Cons.prems \<open>e = ''..''\<close>
        have "dotdot_escapes (length (takeWhile (\<lambda>e. e \<noteq> ''..'') os)) es"
          by simp
        then have "''..'' \<in> set (clean_elems False os es)" by (rule Cons.IH)
        with out \<open>e = ''..''\<close> show ?thesis by simp
      next
        case False
        have "''..'' \<in> set (clean_elems False (''..'' # out) es)"
          by (rule clean_elems_keeps_dotdot) simp
        with False \<open>e = ''..''\<close> show ?thesis by auto
      qed
    next
      case False
      with ne Cons.prems
      have "dotdot_escapes (length (takeWhile (\<lambda>e. e \<noteq> ''..'') (e # out))) es"
        by simp
      then have "''..'' \<in> set (clean_elems False (e # out) es)" by (rule Cons.IH)
      with False ne show ?thesis by simp
    qed
  qed
qed

lemma Clean_rooted: "HasPrefix p ''/'' \<Longrightarrow> HasPrefix (Clean p) ''/''"
  by (cases p) (auto simp: Clean_def Let_def)

lemma Clean_escapes:
  assumes "dotdot_escapes 0 (split_at (CHR ''/'') p)"
  shows "Contains (Clean p) ''..'' \<or> HasPrefix (Clean p) ''/''"
proof (cases "HasPrefix p ''/''")
  case True
  then show ?thesis by (simp add: Clean_rooted)
next
  case False
  from assms have ne: "p \<noteq> []" by (cases p) auto
  with False have nr: "hd p \<noteq> CHR ''/''" by (simp add: HasPrefix_single)
  let ?out = "clean_elems False [] (split_at (CHR ''/'') p)"
  from assms have "''..'' \<in> set ?out"
    using clean_elems_escapes[of "[]"] by simp
  then have "Contains (Join (rev ?out) ''/'') ''..''"
    by (intro Contains_Join) simp
  moreover from this have "Join (rev ?out) ''/'' \<noteq> []" by (cases "Join (rev ?out) ''/''") auto
  ultimately show ?thesis using ne nr by (simp add: Clean_def Let_def)
qed

text \<open>A path leads out at depth \<open>d\<close> exactly when its deficit is more than \<open>d\<close>.\<close>

lemma escapes_deficit: "dotdot_escapes d es \<longleftrightarrow> d < deficit es"
proof (induction es arbitrary: d)
  case Nil
  show ?case by simp
next
  case (Cons e es)
  show ?case
  proof (cases "e = [] \<or> e = ''.''")
    case True
    with Cons show ?thesis by auto
  next
    case False
    show ?thesis
    proof (cases "e = ''..''")
      case True
      with Cons show ?thesis by (cases d) auto
    next
      case False
      with \<open>\<not> (e = [] \<or> e = ''.'')\<close> Cons[of "Suc d"] show ?thesis by auto
    qed
  qed
qed

text \<open>
  While the path does not lead out, the elements that cleaning keeps are the surviving
  names, on top of what is left of the names kept before.
\<close>

lemma clean_elems_surviving:
  "''..'' \<notin> set out \<Longrightarrow> deficit es \<le> length out
   \<Longrightarrow> clean_elems False out es = rev (surviving es) @ drop (deficit es) out"
proof (induction es arbitrary: out)
  case Nil
  show ?case by simp
next
  case (Cons e es)
  show ?case
  proof (cases "e = [] \<or> e = ''.''")
    case True
    with Cons show ?thesis by (auto simp: is_name_def)
  next
    case False
    note ne = this
    show ?thesis
    proof (cases "e = ''..''")
      case True
      with Cons.prems obtain o1 os where out: "out = o1 # os" "o1 \<noteq> ''..''"
        by (cases out) auto
      with Cons.prems True have "''..'' \<notin> set os" "deficit es \<le> length os" by auto
      from Cons.IH[OF this] out True show ?thesis by (simp add: is_name_def)
    next
      case False
      with ne have n: "is_name e" by (simp add: is_name_def)
      from Cons.prems False ne have p: "''..'' \<notin> set (e # out)" "deficit es \<le> length (e # out)"
        by auto
      note ih = Cons.IH[OF p]
      show ?thesis
      proof (cases "deficit es")
        case 0
        with ih n False ne show ?thesis by (simp add: escapes_deficit)
      next
        case (Suc k)
        with ih n False ne show ?thesis by (simp add: escapes_deficit)
      qed
    qed
  qed
qed

lemma surviving_names: "e \<in> set (surviving es) \<Longrightarrow> e \<in> set es \<and> is_name e"
  by (induction es) (auto split: if_splits)

lemma Contains_trans: "Contains s x \<Longrightarrow> Contains x y \<Longrightarrow> Contains s y"
  unfolding Contains_iff by (metis append.assoc)

lemma Join_Contains_dotdot:
  "Contains (Join xs ''/'') ''..'' \<longleftrightarrow> \<not> list_all (\<lambda>e. \<not> Contains e ''..'') xs"
proof
  assume "Contains (Join xs ''/'') ''..''"
  then show "\<not> list_all (\<lambda>e. \<not> Contains e ''..'') xs"
    using Join_no_dotdot[of xs] by (auto simp: list_all_iff)
next
  assume "\<not> list_all (\<lambda>e. \<not> Contains e ''..'') xs"
  then obtain e where "e \<in> set xs" "Contains e ''..''" by (auto simp: list_all_iff)
  then show "Contains (Join xs ''/'') ''..''"
    using Contains_Join[of e xs "''/''"] Contains_trans by blast
qed

lemma valid_path_exact:
  "isValidTarPath p \<longleftrightarrow>
     \<not> HasPrefix p ''/''
     \<and> \<not> dotdot_escapes 0 (split_at (CHR ''/'') p)
     \<and> list_all (\<lambda>e. \<not> Contains e ''..'') (surviving (split_at (CHR ''/'') p))
     \<and> (case surviving (split_at (CHR ''/'') p) of
           [] \<Rightarrow> True
         | e # es \<Rightarrow> \<not> HasPrefix e [CHR 0x5C])"
proof (cases "HasPrefix p ''/''")
  case True
  then have "HasPrefix (Clean p) ''/''" by (rule Clean_rooted)
  with True show ?thesis by (simp add: isValidTarPath_def)
next
  case rel: False
  let ?segs = "split_at (CHR ''/'') p"
  show ?thesis
  proof (cases "dotdot_escapes 0 ?segs")
    case True
    then have "Contains (Clean p) ''..'' \<or> HasPrefix (Clean p) ''/''" by (rule Clean_escapes)
    with True show ?thesis by (auto simp: isValidTarPath_def)
  next
    case False
    let ?S = "surviving ?segs"
    from False have d: "deficit ?segs = 0" by (simp add: escapes_deficit)
    then have out: "clean_elems False [] ?segs = rev ?S"
      using clean_elems_surviving[of "[]" ?segs] by simp
    have names: "\<forall>e \<in> set ?S. e \<noteq> [] \<and> CHR ''/'' \<notin> set e"
      using surviving_names[of _ ?segs] split_at_no_sep[of _ "CHR ''/''" p]
      by (auto simp: is_name_def)
    show ?thesis
    proof (cases "p = []")
      case True
      then show ?thesis by (simp add: isValidTarPath_def Clean_def is_name_def)
    next
      case ne: False
      with rel have nr: "hd p \<noteq> CHR ''/''" by (simp add: HasPrefix_single)
      show ?thesis
      proof (cases ?S)
        case Nil
        with ne nr out rel False show ?thesis
          by (simp add: isValidTarPath_def Clean_def Let_def)
      next
        case (Cons e es)
        with names have e: "e \<noteq> []" "CHR ''/'' \<notin> set e" by auto
        then have he: "hd e \<noteq> CHR ''/''" by (metis hd_in_set)
        from Cons e have j: "Join ?S ''/'' \<noteq> []" "hd (Join ?S ''/'') = hd e"
          using Join_hd[of ?S "''/''"] by simp_all
        have c: "Clean p = Join ?S ''/''"
          using ne nr out j by (simp add: Clean_def Let_def)
        show ?thesis
          unfolding isValidTarPath_def c Let_def Join_Contains_dotdot
          using rel False j he e Cons by (simp add: HasPrefix_single)
      qed
    qed
  qed
qed

text \<open>
  An entry whose path fails the check can be taken out of the stream: the extraction
  gives the same with it and without it.
\<close>

lemma extract_unsafe_skipped:
  "\<not> isValidTarPath (Name hdr)
   \<Longrightarrow> extractMMDBFromTar (before @ Header hdr content # rest) = extractMMDBFromTar (before @ rest)"
proof (induction before)
  case Nil
  then show ?case by simp
next
  case (Cons x before)
  then show ?case by (cases x) simp_all
qed

subsection \<open>The check\<close>

text \<open>
  Claim C3, as the specification states it: the check rejects every path that contains
  a \<open>..\<close> segment or begins with a separator, and accepts every relative path without a
  \<open>..\<close> segment. The program does otherwise on both counts. It cleans the path first, so
  a \<open>..\<close> segment that a directory name before it cancels is gone when the test is made:
  \<open>x/../foo.mmdb\<close> has such a segment and is accepted. And it tests for two dots anywhere
  in the cleaned path, not for a segment: \<open>x/foo..mmdb\<close> is relative and has no \<open>..\<close>
  segment, and is rejected.
\<close>

theorem isValidTarPath_counterexample:
  "has_dotdot_segment ''x/../foo.mmdb'' \<and> isValidTarPath ''x/../foo.mmdb''
   \<and> \<not> HasPrefix ''x/foo..mmdb'' ''/'' \<and> \<not> has_dotdot_segment ''x/foo..mmdb''
   \<and> \<not> isValidTarPath ''x/foo..mmdb''"
  by (simp add: has_dotdot_segment_def isValidTarPath_def Clean_def)

text \<open>
  Claim C3, amended. The check works on the cleaned path. It accepts a path exactly when
  the path does not begin with the separator \<open>/\<close>, no \<open>..\<close> segment leads out of the
  starting directory, none of the names that survive (those no \<open>..\<close> segment cancels) has
  two dots in a row, and the first surviving name does not begin with a backslash; it
  rejects every other path. So a \<open>..\<close> segment that a name before it cancels does no harm
  (\<open>x/../foo.mmdb\<close> is accepted), and two dots inside a name do (\<open>x/foo..mmdb\<close> is
  rejected). An entry that fails the check is passed over silently: the extraction gives
  what it gives on the stream without that entry.
\<close>

theorem isValidTarPath_cleaned:
  "(isValidTarPath p \<longleftrightarrow>
      \<not> HasPrefix p ''/''
      \<and> \<not> dotdot_escapes 0 (split_at (CHR ''/'') p)
      \<and> list_all (\<lambda>e. \<not> Contains e ''..'') (surviving (split_at (CHR ''/'') p))
      \<and> (case surviving (split_at (CHR ''/'') p) of
            [] \<Rightarrow> True
          | e # es \<Rightarrow> \<not> HasPrefix e [CHR 0x5C]))
   \<and> (\<not> isValidTarPath (Name hdr)
       \<longrightarrow> extractMMDBFromTar (before @ Header hdr content # rest)
           = extractMMDBFromTar (before @ rest))"
  using valid_path_exact[of p] extract_unsafe_skipped[of hdr before content rest]
  by blast

text \<open>
  The two paths of the counterexample, a plain path, a backslash inside a path and at
  its start, a rooted path, a path that leads out, and an archive with an unsafe entry
  between two others.
\<close>

theorem isValidTarPath_cleaned_witness:
  "surviving (split_at (CHR ''/'') ''x/../foo.mmdb'') = [''foo.mmdb'']
   \<and> isValidTarPath ''x/../foo.mmdb''
   \<and> surviving (split_at (CHR ''/'') ''x/foo..mmdb'') = [''x'', ''foo..mmdb'']
   \<and> \<not> isValidTarPath ''x/foo..mmdb''
   \<and> isValidTarPath ''x/foo.mmdb''
   \<and> isValidTarPath [CHR ''a'', CHR ''/'', CHR 0x5C, CHR ''b'']
   \<and> \<not> isValidTarPath [CHR 0x5C, CHR ''b'']
   \<and> \<not> isValidTarPath ''/etc/passwd''
   \<and> dotdot_escapes 0 (split_at (CHR ''/'') ''x/../../evil.mmdb'')
   \<and> \<not> isValidTarPath ''x/../../evil.mmdb''
   \<and> \<not> isValidTarPath (Name \<lparr>Name = ''../evil.mmdb'', Size = 4\<rparr>)
   \<and> extractMMDBFromTar
        ([entry ''README.txt'' ''hi''] @ Header \<lparr>Name = ''../evil.mmdb'', Size = 4\<rparr> ''evil''
           # [entry ''x/foo.mmdb'' ''abc''])
       = extractMMDBFromTar ([entry ''README.txt'' ''hi''] @ [entry ''x/foo.mmdb'' ''abc''])"
  using isValidTarPath_cleaned[of "''x/../foo.mmdb''"]
    isValidTarPath_cleaned[of "''x/foo..mmdb''"]
    isValidTarPath_cleaned[of "''x/foo.mmdb''"]
    isValidTarPath_cleaned[of "[CHR ''a'', CHR ''/'', CHR 0x5C, CHR ''b'']"]
    isValidTarPath_cleaned[of "[CHR 0x5C, CHR ''b'']"]
    isValidTarPath_cleaned[of "''/etc/passwd''"]
    isValidTarPath_cleaned[of "''x/../../evil.mmdb''"]
    isValidTarPath_cleaned[of "''../evil.mmdb''" "\<lparr>Name = ''../evil.mmdb'', Size = 4\<rparr>"
      "[entry ''README.txt'' ''hi'']" "''evil''" "[entry ''x/foo.mmdb'' ''abc'']"]
  by (simp add: is_name_def)

section \<open>Properties of the extraction\<close>

lemma extract_passed_over:
  "list_all passed_over before
   \<Longrightarrow> extractMMDBFromTar (before @ rest) = extractMMDBFromTar rest"
proof (induction before)
  case Nil
  then show ?case by simp
next
  case (Cons x before)
  then show ?case by (cases x) (auto simp: qualifies_def)
qed



lemma extract_content_unread:
  "maxDownloadSize < Size hdr
   \<Longrightarrow> extractMMDBFromTar (before @ Header hdr content # rest)
       = extractMMDBFromTar (before @ Header hdr content' # rest)"
proof (induction before)
  case Nil
  then show ?case by simp
next
  case (Cons x before)
  then show ?case by (cases x) simp_all
qed

lemma extract_ended_before:
  "\<not> list_all passed_over before
   \<Longrightarrow> extractMMDBFromTar (before @ later) = extractMMDBFromTar before"
proof (induction before)
  case Nil
  then show ?case by simp
next
  case (Cons x before)
  then show ?case by (cases x) (auto simp: qualifies_def)
qed

text \<open>
  Claim C8, as the specification states it: for every tar entry whose name carries the
  suffix and whose declared size is above the maximum, the extraction fails. The program
  tests the path before the size, and stops at the first entry it does not pass over.
  So an oversized \<open>../big.mmdb\<close> is skipped, and an oversized \<open>big.mmdb\<close> after \<open>ok.mmdb\<close>
  is never visited: in both archives the extraction returns the bytes of \<open>ok.mmdb\<close> and
  no error.
\<close>

theorem extract_too_large_counterexample:
  "HasSuffix ''../big.mmdb'' ''.mmdb'' \<and> HasSuffix ''big.mmdb'' ''.mmdb''
   \<and> maxDownloadSize < 1073741825
   \<and> extractMMDBFromTar
        [Header \<lparr>Name = ''../big.mmdb'', Size = 1073741825\<rparr> ''abc'', entry ''ok.mmdb'' ''ok'']
       = Inr ''ok''
   \<and> extractMMDBFromTar
        [entry ''ok.mmdb'' ''ok'', Header \<lparr>Name = ''big.mmdb'', Size = 1073741825\<rparr> ''abc'']
       = Inr ''ok''"
  by (simp add: entry_def isValidTarPath_def Clean_def HasSuffix_def maxDownloadSize_def
      read_entry_def)

text \<open>
  Claim C8, amended. For every tar entry, wherever it stands in the stream: when every
  entry before it was passed over, its path is safe, its name carries the suffix and
  its declared size is above the maximum, the extraction fails with the size error,
  whatever follows; when its declared size is above the maximum, the result is the same
  for every content of the entry, so none of it is read; when its path fails the check,
  the entry is skipped, the result being that of the stream without it; and when the
  extraction has ended at an entry before it, it is never visited.
\<close>

theorem extract_too_large:
  "(list_all passed_over before \<and> isValidTarPath (Name hdr) \<and> HasSuffix (Name hdr) ''.mmdb''
      \<and> maxDownloadSize < Size hdr
    \<longrightarrow> extractMMDBFromTar (before @ Header hdr content # rest) = Inl (TooLarge (Size hdr)))
   \<and> (maxDownloadSize < Size hdr
    \<longrightarrow> extractMMDBFromTar (before @ Header hdr content # rest)
        = extractMMDBFromTar (before @ Header hdr content' # rest))
   \<and> (\<not> isValidTarPath (Name hdr)
    \<longrightarrow> extractMMDBFromTar (before @ Header hdr content # rest)
        = extractMMDBFromTar (before @ rest))
   \<and> (\<not> list_all passed_over before
    \<longrightarrow> extractMMDBFromTar (before @ Header hdr content # rest) = extractMMDBFromTar before)"
proof (intro conjI impI)
  assume a: "list_all passed_over before \<and> isValidTarPath (Name hdr)
      \<and> HasSuffix (Name hdr) ''.mmdb'' \<and> maxDownloadSize < Size hdr"
  then have "extractMMDBFromTar (before @ Header hdr content # rest)
      = extractMMDBFromTar (Header hdr content # rest)"
    using extract_passed_over[of before] by blast
  with a show "extractMMDBFromTar (before @ Header hdr content # rest)
      = Inl (TooLarge (Size hdr))"
    by simp
next
  assume "maxDownloadSize < Size hdr"
  then show "extractMMDBFromTar (before @ Header hdr content # rest)
        = extractMMDBFromTar (before @ Header hdr content' # rest)"
    by (rule extract_content_unread)
next
  assume "\<not> isValidTarPath (Name hdr)"
  then show "extractMMDBFromTar (before @ Header hdr content # rest)
        = extractMMDBFromTar (before @ rest)"
    by (rule extract_unsafe_skipped)
next
  assume "\<not> list_all passed_over before"
  then show "extractMMDBFromTar (before @ Header hdr content # rest) = extractMMDBFromTar before"
    by (rule extract_ended_before)
qed

text \<open>
  An oversized database after a file that is passed over, with two contents; and the
  two archives of the counterexample.
\<close>

theorem extract_too_large_witness:
  "list_all passed_over [entry ''README.txt'' ''hi'']
   \<and> isValidTarPath ''GeoLite2-Country.mmdb'' \<and> HasSuffix ''GeoLite2-Country.mmdb'' ''.mmdb''
   \<and> maxDownloadSize < 1073741825
   \<and> extractMMDBFromTar
        [entry ''README.txt'' ''hi'',
         Header \<lparr>Name = ''GeoLite2-Country.mmdb'', Size = 1073741825\<rparr> ''abc'']
       = Inl (TooLarge 1073741825)
   \<and> extractMMDBFromTar
        [entry ''README.txt'' ''hi'',
         Header \<lparr>Name = ''GeoLite2-Country.mmdb'', Size = 1073741825\<rparr> ''abc'']
       = extractMMDBFromTar
        [entry ''README.txt'' ''hi'',
         Header \<lparr>Name = ''GeoLite2-Country.mmdb'', Size = 1073741825\<rparr> ''xyz!'']
   \<and> \<not> isValidTarPath ''../big.mmdb''
   \<and> extractMMDBFromTar
        [Header \<lparr>Name = ''../big.mmdb'', Size = 1073741825\<rparr> ''abc'', entry ''ok.mmdb'' ''ok'']
       = extractMMDBFromTar [entry ''ok.mmdb'' ''ok'']
   \<and> \<not> list_all passed_over [entry ''ok.mmdb'' ''ok'']
   \<and> extractMMDBFromTar
        [entry ''ok.mmdb'' ''ok'', Header \<lparr>Name = ''big.mmdb'', Size = 1073741825\<rparr> ''abc'']
       = extractMMDBFromTar [entry ''ok.mmdb'' ''ok'']"
proof -
  let ?big = "\<lparr>Name = ''GeoLite2-Country.mmdb'', Size = 1073741825\<rparr>"
  have p: "list_all passed_over [entry ''README.txt'' ''hi'']"
    by (simp add: entry_def qualifies_def isValidTarPath_def Clean_def HasSuffix_def)
  have q: "isValidTarPath ''GeoLite2-Country.mmdb''"
    "HasSuffix ''GeoLite2-Country.mmdb'' ''.mmdb''"
    by (simp_all add: isValidTarPath_def Clean_def HasSuffix_def)
  have m: "maxDownloadSize < 1073741825" by (simp add: maxDownloadSize_def)
  have u: "\<not> isValidTarPath ''../big.mmdb''" by (simp add: isValidTarPath_def Clean_def)
  have n: "\<not> list_all passed_over [entry ''ok.mmdb'' ''ok'']"
    by (simp add: entry_def qualifies_def isValidTarPath_def Clean_def HasSuffix_def)
  note t1 = extract_too_large[of "[entry ''README.txt'' ''hi'']" ?big "''abc''" "[]" "''xyz!''"]
  note t2 = extract_too_large[of "[]" "\<lparr>Name = ''../big.mmdb'', Size = 1073741825\<rparr>"
      "''abc''" "[entry ''ok.mmdb'' ''ok'']"]
  note t3 = extract_too_large[of "[entry ''ok.mmdb'' ''ok'']"
      "\<lparr>Name = ''big.mmdb'', Size = 1073741825\<rparr>" "''abc''" "[]"]
  have a: "extractMMDBFromTar [entry ''README.txt'' ''hi'', Header ?big ''abc'']
      = Inl (TooLarge 1073741825)"
    using t1 p q m by simp
  have b: "extractMMDBFromTar [entry ''README.txt'' ''hi'', Header ?big ''abc'']
      = extractMMDBFromTar [entry ''README.txt'' ''hi'', Header ?big ''xyz!'']"
    using t1 m by simp
  have c: "extractMMDBFromTar
        [Header \<lparr>Name = ''../big.mmdb'', Size = 1073741825\<rparr> ''abc'', entry ''ok.mmdb'' ''ok'']
       = extractMMDBFromTar [entry ''ok.mmdb'' ''ok'']"
    using t2 u by simp
  have d: "extractMMDBFromTar
        [entry ''ok.mmdb'' ''ok'', Header \<lparr>Name = ''big.mmdb'', Size = 1073741825\<rparr> ''abc'']
       = extractMMDBFromTar [entry ''ok.mmdb'' ''ok'']"
    using t3 n by simp
  from p q m u n a b c d show ?thesis by blast
qed

section \<open>Properties of the aggregation\<close>

lemma bucket_append_to:
  "bucket (append_to m code pfx) c = (if c = code then bucket m code @ [pfx] else bucket m c)"
  by (simp add: bucket_def append_to_def update_conv')

lemma networks_loop_buckets:
  "bucket (ipv4 (networks_loop u rs g)) c
     = bucket (ipv4 g) c @ map Prefix (filter (\<lambda>r. yields u r c \<and> Is4 (Addr (Prefix r))) rs)
   \<and> bucket (ipv6 (networks_loop u rs g)) c
     = bucket (ipv6 g) c @ map Prefix (filter (\<lambda>r. yields u r c \<and> \<not> Is4 (Addr (Prefix r))) rs)"
proof (induction rs arbitrary: g)
  case Nil
  show ?case by simp
next
  case (Cons r rs)
  show ?case
  proof (cases "Decode r")
    case None
    with Cons show ?thesis by (simp add: yields_def)
  next
    case (Some rec)
    with Cons show ?thesis
      by (auto simp: yields_def Let_def bucket_append_to)
  qed
qed

lemma example_codes:
  "isValidCountryCode u ''US''" "isValidCountryCode u ''DE''" "\<not> isValidCountryCode u ''us''"
  by (simp_all add: valid_code_two_upper two_upper_letters_def upper_letter_def byte_def)

lemma example_families: "Is4 (Addr pfx_1_2_3_0)" "\<not> Is4 (Addr pfx_2001_db8)"
  by (simp_all add: pfx_1_2_3_0_def pfx_2001_db8_def)

text \<open>
  Claim C1. When the database opens, the aggregation ends without an error, and for
  every country code the IPv4 bucket under it is what it was before, followed by the
  prefixes of exactly those networks, in the order of the decoder, whose record decodes
  to that code, with the code not empty and valid, and whose address is an IPv4 address;
  the IPv6 bucket likewise, for the networks whose address is not an IPv4 address. Every
  other pair is skipped. A prefix that comes twice is there twice, and nothing is sorted.
\<close>

theorem loadGeoIPData_buckets:
  assumes "FromBytes mmdbData = Some networks"
  shows "fst (loadGeoIPData u FromBytes mmdbData g) = None
     \<and> bucket (ipv4 (snd (loadGeoIPData u FromBytes mmdbData g))) code
         = bucket (ipv4 g) code
           @ map Prefix (filter (\<lambda>r. yields u r code \<and> Is4 (Addr (Prefix r))) networks)
     \<and> bucket (ipv6 (snd (loadGeoIPData u FromBytes mmdbData g))) code
         = bucket (ipv6 g) code
           @ map Prefix (filter (\<lambda>r. yields u r code \<and> \<not> Is4 (Addr (Prefix r))) networks)"
  using assms networks_loop_buckets[of u networks g code]
  by (simp add: loadGeoIPData_def)

text \<open>
  The database of the specification's example and more: \<open>US\<close> twice with the same IPv4
  prefix and once with an IPv6 prefix, \<open>us\<close>, an empty code, a record that does not
  decode, and \<open>DE\<close>.
\<close>

theorem loadGeoIPData_buckets_witness:
  "(\<lambda>b. Some example_networks) ''mmdb'' = Some example_networks
   \<and> bucket (ipv4 (snd (loadGeoIPData (\<lambda>s. s) (\<lambda>b. Some example_networks) ''mmdb''
        newGeoIPGenerator))) ''US'' = [pfx_1_2_3_0, pfx_1_2_3_0]
   \<and> bucket (ipv6 (snd (loadGeoIPData (\<lambda>s. s) (\<lambda>b. Some example_networks) ''mmdb''
        newGeoIPGenerator))) ''US'' = [pfx_2001_db8]
   \<and> bucket (ipv4 (snd (loadGeoIPData (\<lambda>s. s) (\<lambda>b. Some example_networks) ''mmdb''
        newGeoIPGenerator))) ''us'' = []"
proof -
  have h: "(\<lambda>b. Some example_networks) ''mmdb'' = Some example_networks" by simp
  show ?thesis
    using loadGeoIPData_buckets[where u = "\<lambda>s. s" and g = newGeoIPGenerator
          and code = "''US''", OF h]
      loadGeoIPData_buckets[where u = "\<lambda>s. s" and g = newGeoIPGenerator
          and code = "''us''", OF h]
      example_codes[of "\<lambda>s. s"] example_families
    by (simp add: example_networks_def network_def yields_def bucket_def newGeoIPGenerator_def)
qed

subsection \<open>The invariant of the buckets\<close>

lemma list_all_update:
  "list_all P m \<Longrightarrow> P (k, v) \<Longrightarrow> list_all P (AList.update k v m)"
  by (induction m) auto

lemma bucket_inv_append_to:
  "bucket_inv u m \<Longrightarrow> isValidCountryCode u code \<Longrightarrow> bucket_inv u (append_to m code pfx)"
  unfolding bucket_inv_def append_to_def
  by (simp add: distinct_update list_all_update)

lemma networks_loop_inv:
  "bucket_inv u (ipv4 g) \<Longrightarrow> bucket_inv u (ipv6 g)
   \<Longrightarrow> bucket_inv u (ipv4 (networks_loop u rs g)) \<and> bucket_inv u (ipv6 (networks_loop u rs g))"
proof (induction rs arbitrary: g)
  case Nil
  then show ?case by simp
next
  case (Cons r rs)
  then show ?case
    by (cases "Decode r") (auto simp: Let_def bucket_inv_append_to)
qed

lemma bucket_inv_key:
  assumes "bucket_inv u m" "code \<in> set (map fst m)"
  shows "bucket m code \<noteq> []"
proof -
  from assms(2) obtain pfxs where in_m: "(code, pfxs) \<in> set m" by auto
  with assms(1) have "map_of m code = Some pfxs" by (simp add: bucket_inv_def)
  moreover from assms(1) in_m have "pfxs \<noteq> []"
    by (auto simp: bucket_inv_def list_all_iff)
  ultimately show ?thesis by (simp add: bucket_def)
qed

lemma bucket_inv_summary:
  assumes "bucket_inv u m"
  shows "distinct (map fst m)
     \<and> list_all (\<lambda>(code, pfxs). two_upper_letters code \<and> pfxs \<noteq> []) m
     \<and> list_all (\<lambda>code. bucket m code \<noteq> []) (map fst m)"
proof -
  have "list_all (\<lambda>code. bucket m code \<noteq> []) (map fst m)"
    unfolding list_all_iff using bucket_inv_key[OF assms] by blast
  with assms show ?thesis
    by (simp add: bucket_inv_def valid_code_two_upper)
qed

lemma loadGeoIPData_inv:
  assumes "loadGeoIPData u FromBytes mmdbData newGeoIPGenerator = (err, g)"
  shows "bucket_inv u (ipv4 g) \<and> bucket_inv u (ipv6 g)"
proof -
  have e: "bucket_inv u (ipv4 newGeoIPGenerator)" "bucket_inv u (ipv6 newGeoIPGenerator)"
    by (simp_all add: bucket_inv_def newGeoIPGenerator_def)
  show ?thesis
  proof (cases "FromBytes mmdbData")
    case None
    with assms have "g = newGeoIPGenerator" by (simp add: loadGeoIPData_def)
    with e show ?thesis by simp
  next
    case (Some networks)
    with assms have "g = networks_loop u networks newGeoIPGenerator"
      by (simp add: loadGeoIPData_def)
    with networks_loop_inv[OF e] show ?thesis by simp
  qed
qed

text \<open>
  Claim C10. After the aggregation, from the empty maps of \<open>newGeoIPGenerator\<close>, every
  key of the IPv4 map and of the IPv6 map is a country code of two upper-case ASCII
  letters, each key is there once, and every list stored under a key is not empty. So
  for every key that the writers enumerate, the list they look up has a prefix in it:
  their test \<open>len(prefixes) == 0\<close> is never true.
\<close>

theorem loadGeoIPData_invariant:
  assumes "loadGeoIPData u FromBytes mmdbData newGeoIPGenerator = (err, g)"
  shows "(distinct (map fst (ipv4 g))
          \<and> list_all (\<lambda>(code, pfxs). two_upper_letters code \<and> pfxs \<noteq> []) (ipv4 g)
          \<and> list_all (\<lambda>code. bucket (ipv4 g) code \<noteq> []) (map fst (ipv4 g)))
       \<and> (distinct (map fst (ipv6 g))
          \<and> list_all (\<lambda>(code, pfxs). two_upper_letters code \<and> pfxs \<noteq> []) (ipv6 g)
          \<and> list_all (\<lambda>code. bucket (ipv6 g) code \<noteq> []) (map fst (ipv6 g)))"
  using loadGeoIPData_inv[OF assms] bucket_inv_summary by blast

theorem loadGeoIPData_invariant_witness:
  "loadGeoIPData (\<lambda>s. s) (\<lambda>b. Some example_networks) ''mmdb'' newGeoIPGenerator
     = (None, \<lparr>ipv4 = [(''US'', [pfx_1_2_3_0, pfx_1_2_3_0])],
               ipv6 = [(''US'', [pfx_2001_db8]), (''DE'', [pfx_2001_db8])]\<rparr>)
   \<and> list_all (\<lambda>(code, pfxs). two_upper_letters code \<and> pfxs \<noteq> [])
        [(''US'', [pfx_2001_db8]), (''DE'', [pfx_2001_db8])]
   \<and> list_all (\<lambda>code. bucket [(''US'', [pfx_2001_db8]), (''DE'', [pfx_2001_db8])] code \<noteq> [])
        [''US'', ''DE'']"
proof -
  have l: "loadGeoIPData (\<lambda>s. s) (\<lambda>b. Some example_networks) ''mmdb'' newGeoIPGenerator
     = (None, \<lparr>ipv4 = [(''US'', [pfx_1_2_3_0, pfx_1_2_3_0])],
               ipv6 = [(''US'', [pfx_2001_db8]), (''DE'', [pfx_2001_db8])]\<rparr>)"
    using example_codes[of "\<lambda>s. s"] example_families
    by (simp add: loadGeoIPData_def example_networks_def network_def newGeoIPGenerator_def
        append_to_def bucket_def Let_def)
  show ?thesis
    using l loadGeoIPData_invariant[OF l] by simp
qed

section \<open>Properties of the writers\<close>

subsection \<open>Writes that succeed\<close>

lemma files_write_file [simp]:
  "files (write_file w c fs) = (files fs)(w \<mapsto> c)"
  "dirs (write_file w c fs) = dirs fs"
  "stdout (write_file w c fs) = stdout fs"
  by (simp_all add: write_file_def)

lemma write_file_twice [simp]: "write_file w b (write_file w a fs) = write_file w b fs"
  by (simp add: write_file_def)

lemma write_file_same: "files fs w = Some c \<Longrightarrow> write_file w c fs = fs"
  by (simp add: write_file_def map_upd_triv)

lemma Fprint_ok:
  "\<not> write_fails env w \<Longrightarrow> files fs w = Some old
   \<Longrightarrow> discard (Fprint env w s fs) = write_file w (old @ s) fs"
  by (simp add: Fprint_def discard_def)

lemma Fprintln_ok:
  "\<not> write_fails env w \<Longrightarrow> files fs w = Some old
   \<Longrightarrow> discard (Fprintln env w s fs) = write_file w (old @ s @ ''\<newline>'') fs"
  by (simp add: Fprintln_def Fprint_ok)

lemma header_written:
  assumes "\<not> write_fails env w"
  shows "discard (Fprintln env w ''table inet geoip {''
           (discard (Fprintln env w ''#!/usr/sbin/nft -f'' (write_file w [] fs))))
         = write_file w header fs"
  using assms by (simp add: Fprintln_ok header_def)

lemma writeNFTSet_ok:
  assumes "\<not> write_fails env w" "files fs w = Some old"
  shows "writeNFTSet env String w code pfxs ipType fs
         = (None, write_file w (old @ set_block String code pfxs ipType) fs)"
  using assms by (simp add: writeNFTSet_def Let_def Fprint_ok Fprintln_ok set_block_def)

lemma global_loop_ok:
  assumes "\<not> write_fails env w"
  shows "files fs w = Some old \<Longrightarrow>
     global_loop env String w m ipType codes fs
       = (None, write_file w (old @
            concat (map (\<lambda>c. set_block String c (bucket m c) ipType)
                      (filter (\<lambda>c. bucket m c \<noteq> []) codes))) fs)"
proof (induction codes arbitrary: fs old)
  case Nil
  then show ?case by (simp add: write_file_same)
next
  case (Cons c codes)
  show ?case
  proof (cases "bucket m c = []")
    case True
    with Cons show ?thesis by simp
  next
    case False
    let ?fs = "write_file w (old @ set_block String c (bucket m c) ipType) fs"
    have w: "writeNFTSet env String w c (bucket m c) ipType fs = (None, ?fs)"
      using assms Cons.prems by (rule writeNFTSet_ok)
    have "files ?fs w = Some (old @ set_block String c (bucket m c) ipType)" by simp
    from Cons.IH[OF this] False w show ?thesis by simp
  qed
qed

subsection \<open>The global file\<close>

lemma sorted_filter_keys:
  assumes "distinct (map fst (m :: bucket_map))"
  shows "filter P (sort (map fst m)) = sorted_list_of_set {c \<in> fst ` set m. P c}"
proof -
  let ?xs = "filter P (sort (map fst m))"
  have "sorted ?xs" by (rule sorted_wrt_filter) simp
  moreover from assms have "distinct ?xs" by simp
  moreover have "set ?xs = {c \<in> fst ` set m. P c}" by auto
  ultimately show ?thesis
    by (metis sorted_list_of_set.idem_if_sorted_distinct)
qed

lemma generateGlobalFile_ok:
  assumes "\<not> open_fails env filename" "\<not> write_fails env filename"
  shows "generateGlobalFile env String m filename ipType fs
     = (None, Printf (generated_mark @ filename @ ''\<newline>'')
          (write_file filename (header @ global_body String m ipType @ ''}\<newline>'') fs))"
proof -
  let ?fs1 = "write_file filename [] fs"
  let ?fs3 = "write_file filename header fs"
  let ?fs4 = "write_file filename (header @ global_body String m ipType) fs"
  have o: "OpenFile env filename fs = (None, ?fs1)"
    using assms(1) by (simp add: OpenFile_def)
  note h = header_written[OF assms(2), of fs]
  have f3: "files ?fs3 filename = Some header" by simp
  have l: "global_loop env String filename m ipType (sort (map fst m)) ?fs3 = (None, ?fs4)"
    using global_loop_ok[OF assms(2) f3, of String m ipType "sort (map fst m)"]
    by (simp add: global_body_def)
  have f4: "files ?fs4 filename = Some (header @ global_body String m ipType)" by simp
  have c: "discard (Fprintln env filename ''}'' ?fs4)
        = write_file filename (header @ global_body String m ipType @ ''}\<newline>'') fs"
    using Fprintln_ok[OF assms(2) f4, of "''}''"] by simp
  show ?thesis
    unfolding generateGlobalFile_def o Let_def prod.case option.case h l c ..
qed

text \<open>
  Claim C2. For every bucket map (an association list with one pair for each key), when
  the file opens and the writes succeed, the global file of a family consists of exactly
  the header of two lines (the \<open>#!\<close> line, then \<open>table inet geoip {\<close>), then one set block
  for each country code of the map that has prefixes, the codes in ascending
  lexicographic order and those with no prefix left out, then the line \<open>}\<close>.
\<close>

theorem generateGlobalFile_content:
  assumes "distinct (map fst m)" "\<not> open_fails env filename" "\<not> write_fails env filename"
  shows "fst (generateGlobalFile env String m filename ipType fs) = None
     \<and> files (snd (generateGlobalFile env String m filename ipType fs)) filename
         = Some (header
             @ concat (map (\<lambda>code. set_block String code (bucket m code) ipType)
                        (sorted_list_of_set {code \<in> fst ` set m. bucket m code \<noteq> []}))
             @ ''}\<newline>'')"
  using generateGlobalFile_ok[OF assms(2,3), of String m ipType fs]
    sorted_filter_keys[OF assms(1), of "\<lambda>c. bucket m c \<noteq> []"]
  by (simp add: global_body_def Printf_def)

lemma reliable_os_never_fails: "never_fails reliable_os"
  by (simp add: never_fails_def reliable_os_def)

lemma example_String_texts:
  "example_String pfx_1_2_3_0 = ''1.2.3.0/24''" "example_String pfx_2001_db8 = ''2001:db8::/32''"
  by (simp_all add: example_String_def pfx_1_2_3_0_def pfx_2001_db8_def)

lemma example_ipv4_sorted:
  "sorted_list_of_set {code \<in> fst ` set example_ipv4. bucket example_ipv4 code \<noteq> []}
   = [''DE'', ''US'']"
proof -
  have "{code \<in> fst ` set example_ipv4. bucket example_ipv4 code \<noteq> []} = {''DE'', ''US''}"
    by (auto simp: example_ipv4_def bucket_def)
  then show ?thesis by simp
qed

text \<open>A map with \<open>US\<close> before \<open>DE\<close>, and \<open>ZZ\<close> with no prefix: \<open>DE\<close> comes first, \<open>ZZ\<close> is left out.\<close>

theorem generateGlobalFile_content_witness:
  "distinct (map fst example_ipv4)
   \<and> \<not> open_fails reliable_os ''geoip_ipv4.nft'' \<and> \<not> write_fails reliable_os ''geoip_ipv4.nft''
   \<and> files (snd (generateGlobalFile reliable_os example_String example_ipv4
                    ''geoip_ipv4.nft'' ''ipv4'' empty_fs)) ''geoip_ipv4.nft''
      = Some (''#!/usr/sbin/nft -f\<newline>''
           @ ''table inet geoip {\<newline>''
           @ ''    set DE {\<newline>''
           @ ''        type ipv4_addr\<newline>''
           @ ''        flags interval\<newline>''
           @ ''        elements = { 1.2.3.0/24 }\<newline>''
           @ ''    }\<newline>''
           @ ''    set US {\<newline>''
           @ ''        type ipv4_addr\<newline>''
           @ ''        flags interval\<newline>''
           @ ''        elements = { 1.2.3.0/24, 1.2.3.0/24 }\<newline>''
           @ ''    }\<newline>''
           @ ''}\<newline>'')"
proof -
  have d: "distinct (map fst example_ipv4)" by (simp add: example_ipv4_def)
  have o: "\<not> open_fails reliable_os ''geoip_ipv4.nft''" by (simp add: reliable_os_def)
  have w: "\<not> write_fails reliable_os ''geoip_ipv4.nft''" by (simp add: reliable_os_def)
  have b: "bucket example_ipv4 ''DE'' = [pfx_1_2_3_0]"
    "bucket example_ipv4 ''US'' = [pfx_1_2_3_0, pfx_1_2_3_0]"
    by (simp_all add: example_ipv4_def bucket_def)
  show ?thesis
    using d o w generateGlobalFile_content[OF d o w, of example_String "''ipv4''" empty_fs]
    by (simp add: example_ipv4_sorted b header_def set_block_def example_String_texts)
qed

subsection \<open>The files of the countries\<close>

lemma generateCountryFile_ok:
  assumes "pfxs \<noteq> []" "\<not> mkdir_fails env (countryDir_of code)"
    "\<not> open_fails env (filename_of code ipType)" "\<not> write_fails env (filename_of code ipType)"
  shows "generateCountryFile env String code pfxs ipType fs
     = (None, write_file (filename_of code ipType)
                (header @ set_block String code pfxs ipType @ ''}\<newline>'')
                (fs\<lparr>dirs := insert (countryDir_of code) (dirs fs)\<rparr>))"
proof -
  let ?f = "filename_of code ipType"
  let ?fs1 = "fs\<lparr>dirs := insert (countryDir_of code) (dirs fs)\<rparr>"
  let ?fs4 = "write_file ?f header ?fs1"
  let ?fs5 = "write_file ?f (header @ set_block String code pfxs ipType) ?fs1"
  have m: "MkdirAll env (countryDir_of code) fs = (None, ?fs1)"
    using assms(2) by (simp add: MkdirAll_def)
  have o: "OpenFile env ?f ?fs1 = (None, write_file ?f [] ?fs1)"
    using assms(3) by (simp add: OpenFile_def)
  note h = header_written[OF assms(4), of ?fs1]
  have f4: "files ?fs4 ?f = Some header" by simp
  have w: "writeNFTSet env String ?f code pfxs ipType ?fs4 = (None, ?fs5)"
    using writeNFTSet_ok[OF assms(4) f4, of String code pfxs ipType] by simp
  have f5: "files ?fs5 ?f = Some (header @ set_block String code pfxs ipType)" by simp
  have c: "discard (Fprintln env ?f ''}'' ?fs5)
        = write_file ?f (header @ set_block String code pfxs ipType @ ''}\<newline>'') ?fs1"
    using Fprintln_ok[OF assms(4) f5, of "''}''"] by simp
  from assms(1) have n: "length pfxs \<noteq> 0" by simp
  show ?thesis
    unfolding generateCountryFile_def Let_def m o prod.case option.case h w c
    using n by simp
qed

lemma upper_letter_plain: "upper_letter c \<Longrightarrow> c \<noteq> CHR ''/'' \<and> c \<noteq> CHR ''.''"
  by (auto simp: upper_letter_def byte_def)

lemma filename_of_valid:
  assumes "two_upper_letters code" "ipType = ''ipv4'' \<or> ipType = ''ipv6''"
  shows "countryDir_of code = ''by_country/'' @ code"
    and "filename_of code ipType = ''by_country/'' @ code @ ''/'' @ code @ ''_'' @ ipType @ ''.nft''"
proof -
  from assms(1) obtain a b where code: "code = [a, b]" "upper_letter a" "upper_letter b"
    by (auto simp: two_upper_letters_def split: list.splits)
  from code(2,3) have ab: "a \<noteq> CHR ''/''" "a \<noteq> CHR ''.''" "b \<noteq> CHR ''/''" "b \<noteq> CHR ''.''"
    using upper_letter_plain by blast+
  show d: "countryDir_of code = ''by_country/'' @ code"
    using ab by (simp add: code countryDir_of_def filepath_Join_def Clean_def)
  from assms(2) show "filename_of code ipType
      = ''by_country/'' @ code @ ''/'' @ code @ ''_'' @ ipType @ ''.nft''"
    unfolding filename_of_def d using ab
    by (auto simp: code filepath_Join_def Clean_def)
qed

lemma generateCountryFile_files:
  assumes "never_fails env"
  shows "fst (generateCountryFile env String code pfxs ipType fs) = None
     \<and> files (snd (generateCountryFile env String code pfxs ipType fs))
         = (if pfxs = [] then files fs
            else (files fs)(filename_of code ipType \<mapsto> country_content String code pfxs ipType))"
proof (cases "pfxs = []")
  case True
  then show ?thesis by (simp add: generateCountryFile_def)
next
  case False
  from assms have "\<not> mkdir_fails env (countryDir_of code)"
    "\<not> open_fails env (filename_of code ipType)" "\<not> write_fails env (filename_of code ipType)"
    by (simp_all add: never_fails_def)
  from generateCountryFile_ok[OF False this, of String fs] False
  show ?thesis by (simp add: country_content_def)
qed

lemma filename_of_inj:
  assumes "two_upper_letters c" "two_upper_letters c'"
    and "t = ''ipv4'' \<or> t = ''ipv6''" "t' = ''ipv4'' \<or> t' = ''ipv6''"
  shows "filename_of c t = filename_of c' t' \<longleftrightarrow> c = c' \<and> t = t'"
proof -
  from assms(1) obtain a b where c: "c = [a, b]"
    by (auto simp: two_upper_letters_def split: list.splits)
  from assms(2) obtain a' b' where c': "c' = [a', b']"
    by (auto simp: two_upper_letters_def split: list.splits)
  show ?thesis
    using assms(3,4)
    unfolding filename_of_valid(2)[OF assms(1) assms(3)] filename_of_valid(2)[OF assms(2) assms(4)]
    by (auto simp: c c')
qed

lemma country_loop_files:
  assumes "never_fails env" "two_upper_letters c0"
    and "t = ''ipv4'' \<or> t = ''ipv6''" "t0 = ''ipv4'' \<or> t0 = ''ipv6''"
  shows "list_all two_upper_letters codes \<Longrightarrow>
     fst (country_loop env String m t what codes fs) = None
     \<and> files (snd (country_loop env String m t what codes fs)) (filename_of c0 t0)
         = (if t = t0 \<and> c0 \<in> set codes \<and> bucket m c0 \<noteq> []
            then Some (country_content String c0 (bucket m c0) t)
            else files fs (filename_of c0 t0))"
proof (induction codes arbitrary: fs)
  case Nil
  then show ?case by simp
next
  case (Cons c codes)
  let ?r = "generateCountryFile env String c (bucket m c) t fs"
  note g = generateCountryFile_files[OF assms(1), of String c "bucket m c" t fs]
  from Cons.prems have vc: "two_upper_letters c" and rest: "list_all two_upper_letters codes"
    by simp_all
  note inj = filename_of_inj[OF vc assms(2) assms(3) assms(4)]
  obtain fs1 where r: "?r = (None, fs1)" using g by (cases ?r) auto
  with g have f1: "files fs1 = (if bucket m c = [] then files fs
            else (files fs)(filename_of c t \<mapsto> country_content String c (bucket m c) t))"
    by simp
  from Cons.IH[OF rest, of fs1] r f1 inj show ?case
    by auto
qed

lemma bucket_nonempty_key: "bucket m c \<noteq> [] \<Longrightarrow> c \<in> set (map fst m)"
proof -
  assume "bucket m c \<noteq> []"
  then obtain pfxs where "map_of m c = Some pfxs"
    by (auto simp: bucket_def split: option.splits)
  then have "(c, pfxs) \<in> set m" by (rule map_of_SomeD)
  then show ?thesis by force
qed

text \<open>The maps that the aggregation leaves have country codes as their keys.\<close>

lemma bucket_inv_keys: "bucket_inv u m \<Longrightarrow> list_all two_upper_letters (map fst m)"
  by (auto simp: bucket_inv_def list_all_iff valid_code_two_upper)

text \<open>
  Claim C6. For every country code and each of the two families, when no call of the
  operating system fails and the keys of the maps are country codes: after
  \<open>generateCountryFiles\<close> the file \<open>by_country/CODE/CODE_ipv4.nft\<close> (and likewise
  \<open>CODE_ipv6.nft\<close>) is as it was before when the bucket of the code in that family is
  empty, also when the code is a key with no prefix under it, so that none is created;
  and when the bucket is not empty the file is there and holds exactly the header of two
  lines, the one set block of that country and the line \<open>}\<close>.
\<close>

theorem generateCountryFiles_files:
  assumes "list_all two_upper_letters (map fst (ipv4 g))"
    and "list_all two_upper_letters (map fst (ipv6 g))"
    and "never_fails env" "two_upper_letters code"
  shows "fst (generateCountryFiles env String g fs) = None
     \<and> files (snd (generateCountryFiles env String g fs))
          (''by_country/'' @ code @ ''/'' @ code @ ''_ipv4.nft'')
         = (if bucket (ipv4 g) code = []
            then files fs (''by_country/'' @ code @ ''/'' @ code @ ''_ipv4.nft'')
            else Some (header @ set_block String code (bucket (ipv4 g) code) ''ipv4''
                        @ ''}\<newline>''))
     \<and> files (snd (generateCountryFiles env String g fs))
          (''by_country/'' @ code @ ''/'' @ code @ ''_ipv6.nft'')
         = (if bucket (ipv6 g) code = []
            then files fs (''by_country/'' @ code @ ''/'' @ code @ ''_ipv6.nft'')
            else Some (header @ set_block String code (bucket (ipv6 g) code) ''ipv6''
                        @ ''}\<newline>''))"
proof -
  let ?l4 = "country_loop env String (ipv4 g) ''ipv4'' ''IPv4'' (map fst (ipv4 g)) fs"
  have n4: "filename_of code ''ipv4'' = ''by_country/'' @ code @ ''/'' @ code @ ''_ipv4.nft''"
    using filename_of_valid(2)[OF assms(4), of "''ipv4''"] by simp
  have n6: "filename_of code ''ipv6'' = ''by_country/'' @ code @ ''/'' @ code @ ''_ipv6.nft''"
    using filename_of_valid(2)[OF assms(4), of "''ipv6''"] by simp
  note k4 = assms(1)
  note k6 = assms(2)
  note a44 = country_loop_files[OF assms(3) assms(4), of "''ipv4''" "''ipv4''" "map fst (ipv4 g)"
      String "ipv4 g" "''IPv4''" fs, OF _ _ k4]
  note a46 = country_loop_files[OF assms(3) assms(4), of "''ipv4''" "''ipv6''" "map fst (ipv4 g)"
      String "ipv4 g" "''IPv4''" fs, OF _ _ k4]
  obtain fs1 where l4: "?l4 = (None, fs1)" using a44 by (cases ?l4) auto
  note b64 = country_loop_files[OF assms(3) assms(4), of "''ipv6''" "''ipv4''" "map fst (ipv6 g)"
      String "ipv6 g" "''IPv6''" fs1, OF _ _ k6]
  note b66 = country_loop_files[OF assms(3) assms(4), of "''ipv6''" "''ipv6''" "map fst (ipv6 g)"
      String "ipv6 g" "''IPv6''" fs1, OF _ _ k6]
  have e: "generateCountryFiles env String g fs
      = country_loop env String (ipv6 g) ''ipv6'' ''IPv6'' (map fst (ipv6 g)) fs1"
    by (simp add: generateCountryFiles_def l4)
  show ?thesis
    unfolding e
    using a44 a46 b64 b66 l4 bucket_nonempty_key[of "ipv4 g" code]
      bucket_nonempty_key[of "ipv6 g" code]
    by (auto simp: n4 n6 country_content_def)
qed

text \<open>
  \<open>US\<close> with one IPv4 prefix, and as a key of the IPv6 map with no prefix, on an empty
  file system: the IPv4 file of the specification's scenario is written, and no IPv6
  file is made.
\<close>

theorem generateCountryFiles_files_witness:
  "list_all two_upper_letters (map fst (ipv4 example_empty_key))
   \<and> list_all two_upper_letters (map fst (ipv6 example_empty_key))
   \<and> never_fails reliable_os \<and> two_upper_letters ''US''
   \<and> fst (generateCountryFiles reliable_os example_String example_empty_key empty_fs) = None
   \<and> files (snd (generateCountryFiles reliable_os example_String example_empty_key empty_fs))
        ''by_country/US/US_ipv4.nft''
      = Some (''#!/usr/sbin/nft -f\<newline>''
           @ ''table inet geoip {\<newline>''
           @ ''    set US {\<newline>''
           @ ''        type ipv4_addr\<newline>''
           @ ''        flags interval\<newline>''
           @ ''        elements = { 1.2.3.0/24 }\<newline>''
           @ ''    }\<newline>''
           @ ''}\<newline>'')
   \<and> files (snd (generateCountryFiles reliable_os example_String example_empty_key empty_fs))
        ''by_country/US/US_ipv6.nft'' = None"
proof -
  have v: "two_upper_letters ''US''"
    by (simp add: two_upper_letters_def upper_letter_def byte_def)
  have k4: "list_all two_upper_letters (map fst (ipv4 example_empty_key))"
    using v by (simp add: example_empty_key_def)
  have k6: "list_all two_upper_letters (map fst (ipv6 example_empty_key))"
    using v by (simp add: example_empty_key_def)
  have b: "bucket (ipv4 example_empty_key) ''US'' = [pfx_1_2_3_0]"
    "bucket (ipv6 example_empty_key) ''US'' = []"
    by (simp_all add: example_empty_key_def bucket_def)
  show ?thesis
    using k4 k6 v reliable_os_never_fails
      generateCountryFiles_files[OF k4 k6 reliable_os_never_fails v, of example_String empty_fs]
    by (simp add: b header_def set_block_def example_String_texts empty_fs_def)
qed

subsection \<open>Reading a set block back\<close>

lemma cut_prefix_append: "cut_prefix pre (pre @ x) = Some x"
  by (simp add: cut_prefix_def HasPrefix_def)

lemma cut_suffix_append: "cut_suffix suf (x @ suf) = Some x"
  by (simp add: cut_suffix_def HasSuffix_def)

lemma split_comma_space_plain: "CHR '','' \<notin> set x \<Longrightarrow> split_comma_space x = [x]"
  by (induction x rule: split_comma_space.induct) auto

lemma split_comma_space_item:
  "CHR '','' \<notin> set x \<Longrightarrow> split_comma_space (x @ '', '' @ rest) = x # split_comma_space rest"
  by (induction x rule: split_comma_space.induct) auto

lemma read_elements_Join:
  assumes "\<forall>x \<in> set xs. x \<noteq> [] \<and> CHR '','' \<notin> set x"
  shows "read_elements (Join xs '', '') = xs"
proof -
  have "xs \<noteq> [] \<Longrightarrow> \<forall>x \<in> set xs. CHR '','' \<notin> set x
        \<Longrightarrow> split_comma_space (Join xs '', '') = xs"
  proof (induction xs "'', ''" rule: Join.induct)
    case 1
    then show ?case by simp
  next
    case (2 x)
    then show ?case by (simp add: split_comma_space_plain)
  next
    case (3 x y ys)
    then show ?case using split_comma_space_item[of x "Join (y # ys) '', ''"] by simp
  qed
  moreover have "Join xs '', '' = [] \<longleftrightarrow> xs = []"
    using assms by (induction xs "'', ''" rule: Join.induct) auto
  ultimately show ?thesis using assms by (auto simp: read_elements_def)
qed

lemma Join_no_newline:
  "\<forall>x \<in> set xs. CHR 0x0A \<notin> set x \<Longrightarrow> CHR 0x0A \<notin> set (Join xs '', '')"
  by (induction xs "'', ''" rule: Join.induct) auto

lemma read_set_block_set_block:
  assumes "CHR 0x0A \<notin> set code" "CHR 0x0A \<notin> set ipType"
    and "\<forall>p \<in> set pfxs. cidr_text (String p)"
  shows "read_set_block (set_block String code pfxs ipType) = Some (code, ipType, map String pfxs)"
proof -
  let ?l1 = "''    set '' @ code @ '' {''"
  let ?l2 = "''        type '' @ ipType @ ''_addr''"
  let ?l3 = "''        flags interval''"
  let ?J = "Join (map String pfxs) '', ''"
  let ?l4 = "''        elements = { '' @ ?J @ '' }''"
  let ?l5 = "''    }''"
  have J: "CHR 0x0A \<notin> set ?J"
    using assms(3) by (intro Join_no_newline) (simp add: cidr_text_def)
  have shape: "set_block String code pfxs ipType
      = ?l1 @ CHR 0x0A # ?l2 @ CHR 0x0A # ?l3 @ CHR 0x0A # ?l4 @ CHR 0x0A # ?l5 @ CHR 0x0A # []"
    by (simp add: set_block_def)
  have n: "CHR 0x0A \<notin> set ?l1" "CHR 0x0A \<notin> set ?l2" "CHR 0x0A \<notin> set ?l3"
    "CHR 0x0A \<notin> set ?l4" "CHR 0x0A \<notin> set ?l5"
    using assms(1,2) J by auto
  have lines: "split_at (CHR 0x0A) (set_block String code pfxs ipType)
      = [?l1, ?l2, ?l3, ?l4, ?l5, []]"
    unfolding shape
    by (simp only: split_at_line[OF n(1)] split_at_line[OF n(2)] split_at_line[OF n(3)]
        split_at_line[OF n(4)] split_at_line[OF n(5)] split_at.simps(1))
  have c1: "Option.bind (cut_prefix ''    set '' ?l1) (cut_suffix '' {'') = Some code"
    using cut_prefix_append[of "''    set ''" "code @ '' {''"] cut_suffix_append[of "'' {''" code]
    by simp
  have c2: "Option.bind (cut_prefix ''        type '' ?l2) (cut_suffix ''_addr'') = Some ipType"
    using cut_prefix_append[of "''        type ''" "ipType @ ''_addr''"]
      cut_suffix_append[of "''_addr''" ipType]
    by simp
  have c4: "Option.bind (cut_prefix ''        elements = { '' ?l4) (cut_suffix '' }'') = Some ?J"
    using cut_prefix_append[of "''        elements = { ''" "?J @ '' }''"]
      cut_suffix_append[of "'' }''" ?J]
    by simp
  have e: "read_elements ?J = map String pfxs"
    using assms(3) by (intro read_elements_Join) (simp add: cidr_text_def)
  show ?thesis
    unfolding read_set_block_def lines
    by (simp only: list.case c1 c2 c4 e prod.case option.case if_True simp_thms)
qed

text \<open>
  Claim C9. For every country code, address family and list of prefixes given to
  \<open>writeNFTSet\<close>, reading back the text it writes into a fresh file gives the same country
  code, the same family and the texts of the prefixes in the same order. The code and
  the family have no line break in them (no country code has), and the texts of the
  prefixes are CIDR texts.
\<close>

theorem set_block_round_trip:
  assumes "\<not> write_fails env w" "CHR 0x0A \<notin> set code" "CHR 0x0A \<notin> set ipType"
    and "list_all (\<lambda>p. cidr_text (String p)) pfxs"
  shows "\<exists>block.
           files (snd (writeNFTSet env String w code pfxs ipType (write_file w [] fs))) w
             = Some block
           \<and> read_set_block block = Some (code, ipType, map String pfxs)"
proof -
  have f: "files (write_file w [] fs) w = Some []" by simp
  have "files (snd (writeNFTSet env String w code pfxs ipType (write_file w [] fs))) w
      = Some (set_block String code pfxs ipType)"
    using writeNFTSet_ok[OF assms(1) f, of String code pfxs ipType] by simp
  moreover from assms(4) have "\<forall>p \<in> set pfxs. cidr_text (String p)"
    by (simp add: list_all_iff)
  then have "read_set_block (set_block String code pfxs ipType)
      = Some (code, ipType, map String pfxs)"
    using assms(2,3) by (intro read_set_block_set_block)
  ultimately show ?thesis by blast
qed

theorem set_block_round_trip_witness:
  "\<not> write_fails reliable_os ''out.nft'' \<and> CHR 0x0A \<notin> set ''US'' \<and> CHR 0x0A \<notin> set ''ipv4''
   \<and> list_all (\<lambda>p. cidr_text (example_String p)) [pfx_1_2_3_0, pfx_2001_db8, pfx_1_2_3_0]
   \<and> (\<exists>block.
         files (snd (writeNFTSet reliable_os example_String ''out.nft'' ''US''
                  [pfx_1_2_3_0, pfx_2001_db8, pfx_1_2_3_0] ''ipv4''
                  (write_file ''out.nft'' [] empty_fs))) ''out.nft'' = Some block
         \<and> read_set_block block
           = Some (''US'', ''ipv4'', [''1.2.3.0/24'', ''2001:db8::/32'', ''1.2.3.0/24'']))"
proof -
  have w: "\<not> write_fails reliable_os ''out.nft''" by (simp add: reliable_os_def)
  have c: "CHR 0x0A \<notin> set ''US''" "CHR 0x0A \<notin> set ''ipv4''" by simp_all
  have t: "list_all (\<lambda>p. cidr_text (example_String p)) [pfx_1_2_3_0, pfx_2001_db8, pfx_1_2_3_0]"
    by (simp add: example_String_texts cidr_text_def)
  show ?thesis
    using w c t set_block_round_trip[OF w c t, of empty_fs]
    by (simp add: example_String_texts)
qed

subsection \<open>Failures of the file system\<close>

lemma no_error_pair: "fst r = None \<Longrightarrow> \<exists>s. r = (None, s)"
  by (cases r) simp

lemma writeNFTSet_no_error: "\<exists>fs'. writeNFTSet env String w code pfxs ipType fs = (None, fs')"
  by (simp add: writeNFTSet_def Let_def)

lemma global_loop_no_error: "fst (global_loop env String f m ipType codes fs) = None"
proof (induction codes arbitrary: fs)
  case Nil
  show ?case by simp
next
  case (Cons c codes)
  obtain fs' where "writeNFTSet env String f c (bucket m c) ipType fs = (None, fs')"
    using writeNFTSet_no_error by blast
  with Cons show ?case by (simp add: Let_def)
qed

lemma generateGlobalFile_no_error:
  assumes "\<not> open_fails env filename"
  shows "fst (generateGlobalFile env String m filename ipType fs) = None"
proof -
  let ?fs3 = "discard (Fprintln env filename ''table inet geoip {''
     (discard (Fprintln env filename ''#!/usr/sbin/nft -f'' (write_file filename [] fs))))"
  have o: "OpenFile env filename fs = (None, write_file filename [] fs)"
    using assms by (simp add: OpenFile_def)
  obtain fs4 where l: "global_loop env String filename m ipType (sort (map fst m)) ?fs3
      = (None, fs4)"
    using no_error_pair[OF global_loop_no_error] by blast
  show ?thesis
    unfolding generateGlobalFile_def o Let_def prod.case option.case l by simp
qed

lemma generateCountryFile_no_error:
  assumes "creation_never_fails env"
  shows "fst (generateCountryFile env String code pfxs ipType fs) = None"
proof (cases "pfxs = []")
  case True
  then show ?thesis by (simp add: generateCountryFile_def)
next
  case False
  let ?f = "filename_of code ipType"
  let ?fs1 = "fs\<lparr>dirs := insert (countryDir_of code) (dirs fs)\<rparr>"
  let ?fs4 = "discard (Fprintln env ?f ''table inet geoip {''
     (discard (Fprintln env ?f ''#!/usr/sbin/nft -f'' (write_file ?f [] ?fs1))))"
  from assms have m: "MkdirAll env (countryDir_of code) fs = (None, ?fs1)"
    by (simp add: creation_never_fails_def MkdirAll_def)
  from assms have o: "OpenFile env ?f ?fs1 = (None, write_file ?f [] ?fs1)"
    by (simp add: creation_never_fails_def OpenFile_def)
  obtain fs5 where w: "writeNFTSet env String ?f code pfxs ipType ?fs4 = (None, fs5)"
    using writeNFTSet_no_error by blast
  from False have n: "length pfxs \<noteq> 0" by simp
  show ?thesis
    unfolding generateCountryFile_def Let_def m o prod.case option.case w
    using n by simp
qed

lemma country_loop_no_error:
  assumes "creation_never_fails env"
  shows "fst (country_loop env String m ipType what codes fs) = None"
proof (induction codes arbitrary: fs)
  case Nil
  show ?case by simp
next
  case (Cons c codes)
  obtain fs' where "generateCountryFile env String c (bucket m c) ipType fs = (None, fs')"
    using no_error_pair[OF generateCountryFile_no_error[OF assms]] by blast
  with Cons show ?case by simp
qed

lemma generateCountryFiles_no_error:
  assumes "creation_never_fails env"
  shows "fst (generateCountryFiles env String g fs) = None"
proof -
  obtain fs1 where "country_loop env String (ipv4 g) ''ipv4'' ''IPv4'' (map fst (ipv4 g)) fs
      = (None, fs1)"
    using no_error_pair[OF country_loop_no_error[OF assms]] by blast
  then show ?thesis
    by (simp add: generateCountryFiles_def country_loop_no_error[OF assms])
qed

text \<open>
  Claim C7 says that every failure of the file system while the files are generated,
  a failed write too, ends the run with an error. Failures to make a directory or a file
  do. But the results of all the \<open>fmt.Fprint\<close> calls are dropped and \<open>writeNFTSet\<close> always
  returns \<open>nil\<close>, although it has an error result that its callers check and wrap: when
  the directories and the files can be made, the run reports no error, whatever happens
  to the writes.
\<close>

theorem write_failures_never_reported:
  assumes "creation_never_fails env"
  shows "fst (generateAllFiles env String g fs) = None"
proof -
  let ?fs1 = "fs\<lparr>dirs := insert ''by_country'' (dirs fs)\<rparr>"
  from assms have m: "MkdirAll env ''by_country'' fs = (None, ?fs1)"
    by (simp add: creation_never_fails_def MkdirAll_def)
  from assms have o4: "\<not> open_fails env ''geoip_ipv4.nft''"
    and o6: "\<not> open_fails env ''geoip_ipv6.nft''"
    by (simp_all add: creation_never_fails_def)
  obtain fs2 where g4:
    "generateGlobalFile env String (ipv4 g) ''geoip_ipv4.nft'' ''ipv4'' ?fs1 = (None, fs2)"
    using no_error_pair[OF generateGlobalFile_no_error[OF o4]] by blast
  obtain fs3 where g6:
    "generateGlobalFile env String (ipv6 g) ''geoip_ipv6.nft'' ''ipv6'' fs2 = (None, fs3)"
    using no_error_pair[OF generateGlobalFile_no_error[OF o6]] by blast
  obtain fs4 where c: "generateCountryFiles env String g fs3 = (None, fs4)"
    using no_error_pair[OF generateCountryFiles_no_error[OF assms]] by blast
  show ?thesis
    unfolding generateAllFiles_def m prod.case option.case g4 g6 c by simp
qed

lemma generateAllFiles_full_disk:
  "fst (generateAllFiles full_disk_os example_String example_buckets empty_fs) = None
   \<and> files (snd (generateAllFiles full_disk_os example_String example_buckets empty_fs))
        ''geoip_ipv4.nft'' = Some []
   \<and> files (snd (generateAllFiles full_disk_os example_String example_buckets empty_fs))
        ''by_country/US/US_ipv4.nft'' = Some []
   \<and> stdout (snd (generateAllFiles full_disk_os example_String example_buckets empty_fs))
      = generated_mark @ ''geoip_ipv4.nft\<newline>'' @ generated_mark @ ''geoip_ipv6.nft\<newline>''"
  by (simp add: generateAllFiles_def generateGlobalFile_def generateCountryFiles_def
      generateCountryFile_def writeNFTSet_def MkdirAll_def OpenFile_def Fprintln_def Fprint_def
      Printf_def discard_def full_disk_os_def example_buckets_def empty_fs_def bucket_def
      countryDir_of_def filename_of_def filepath_Join_def Clean_def write_file_def Let_def)

text \<open>
  On a full disk the run reports success and prints its confirmations, and leaves
  empty files.
\<close>

theorem write_failures_never_reported_witness:
  "creation_never_fails full_disk_os \<and> write_fails full_disk_os ''geoip_ipv4.nft''
   \<and> fst (generateAllFiles full_disk_os example_String example_buckets empty_fs) = None
   \<and> files (snd (generateAllFiles full_disk_os example_String example_buckets empty_fs))
        ''geoip_ipv4.nft'' = Some []
   \<and> files (snd (generateAllFiles full_disk_os example_String example_buckets empty_fs))
        ''by_country/US/US_ipv4.nft'' = Some []
   \<and> stdout (snd (generateAllFiles full_disk_os example_String example_buckets empty_fs))
      = generated_mark @ ''geoip_ipv4.nft\<newline>'' @ generated_mark @ ''geoip_ipv6.nft\<newline>''"
proof -
  have c: "creation_never_fails full_disk_os"
    by (simp add: creation_never_fails_def full_disk_os_def)
  have w: "write_fails full_disk_os ''geoip_ipv4.nft''" by (simp add: full_disk_os_def)
  show ?thesis
    using c w write_failures_never_reported[OF c, of example_String example_buckets empty_fs]
      generateAllFiles_full_disk
    by simp
qed

text \<open>Failures to make a directory or a file do end the run.\<close>

lemma creation_failures_are_fatal:
  "mkdir_fails env ''by_country'' \<Longrightarrow> fst (generateAllFiles env String g fs) \<noteq> None"
  "\<not> mkdir_fails env ''by_country'' \<Longrightarrow> open_fails env ''geoip_ipv4.nft''
   \<Longrightarrow> fst (generateAllFiles env String g fs) \<noteq> None"
  "open_fails env filename \<Longrightarrow> fst (generateGlobalFile env String m filename ipType fs) \<noteq> None"
  "pfxs \<noteq> [] \<Longrightarrow> mkdir_fails env (countryDir_of code)
   \<Longrightarrow> fst (generateCountryFile env String code pfxs ipType fs) \<noteq> None"
  "pfxs \<noteq> [] \<Longrightarrow> \<not> mkdir_fails env (countryDir_of code)
   \<Longrightarrow> open_fails env (filename_of code ipType)
   \<Longrightarrow> fst (generateCountryFile env String code pfxs ipType fs) \<noteq> None"
  by (simp_all add: generateAllFiles_def generateGlobalFile_def generateCountryFile_def
      MkdirAll_def OpenFile_def Let_def)

section \<open>The order of the country codes\<close>

text \<open>
  The order on strings that \<open>sort\<close> uses here is the order of Go's \<open><\<close> on strings and
  of \<open>sort.Strings\<close>: bytewise and lexicographic, a proper prefix before the longer string.
\<close>

lemma string_order_examples:
  "(''DE'' :: string) < ''US''" "(''AT'' :: string) < ''AU''" "(''A'' :: string) < ''AB''"
  "(''Z'' :: string) < ''a''" "sort [''US'', ''DE'', ''AT''] = [''AT'', ''DE'', ''US'']"
  by simp_all

end
